theory Spec2Isabelle
  imports Main
begin

section \<open>Python values, characters and errors\<close>

text \<open>
  A Python \<open>str\<close> is modelled as a list of \<^typ>\<open>char\<close>, each \<^typ>\<open>char\<close> standing for the
  code point of the same number (0 to 255). The classification methods of \<open>str\<close> are
  written out for these code points as CPython's Unicode tables give them; code points
  from 256 on are outside the model.
\<close>

datatype error =
    ValueError string
  | IndexError string
  | RuntimeError string
  | PasswordRuleError string
  | RequestException string

definition ord :: "char \<Rightarrow> nat" where
  "ord c = of_char c"

definition islower :: "char \<Rightarrow> bool" where
  "islower c = (let n = ord c in
     (97 \<le> n \<and> n \<le> 122) \<or> n = 170 \<or> n = 181 \<or> n = 186 \<or>
     (223 \<le> n \<and> n \<le> 246) \<or> (248 \<le> n \<and> n \<le> 255))"

definition isupper :: "char \<Rightarrow> bool" where
  "isupper c = (let n = ord c in
     (65 \<le> n \<and> n \<le> 90) \<or> (192 \<le> n \<and> n \<le> 214) \<or> (216 \<le> n \<and> n \<le> 222))"

definition isdigit :: "char \<Rightarrow> bool" where
  "isdigit c = (let n = ord c in
     (48 \<le> n \<and> n \<le> 57) \<or> n = 178 \<or> n = 179 \<or> n = 185)"

definition isalpha :: "char \<Rightarrow> bool" where
  "isalpha c = (let n = ord c in
     (65 \<le> n \<and> n \<le> 90) \<or> (97 \<le> n \<and> n \<le> 122) \<or> n = 170 \<or> n = 181 \<or> n = 186 \<or>
     (192 \<le> n \<and> n \<le> 214) \<or> (216 \<le> n \<and> n \<le> 246) \<or> (248 \<le> n \<and> n \<le> 255))"

text \<open>The constants \<open>string.ascii_lowercase\<close>, \<open>string.ascii_uppercase\<close>, \<open>string.digits\<close>.\<close>

definition ascii_lowercase :: string where
  "ascii_lowercase = ''abcdefghijklmnopqrstuvwxyz''"

definition ascii_uppercase :: string where
  "ascii_uppercase = ''ABCDEFGHIJKLMNOPQRSTUVWXYZ''"

definition digits :: string where
  "digits = ''0123456789''"

text \<open>\<open>str(n)\<close> for an integer: decimal digits, with a minus sign below zero.\<close>

fun str_nat :: "nat \<Rightarrow> string" where
  "str_nat n = (if n < 10 then [char_of (48 + n)]
                else str_nat (n div 10) @ [char_of (48 + n mod 10)])"

declare str_nat.simps [simp del]

definition str_int :: "int \<Rightarrow> string" where
  "str_int i = (if i < 0 then CHR ''-'' # str_nat (nat (- i)) else str_nat (nat i))"

section \<open>The randomness source\<close>

text \<open>
  The module \<open>random\<close> is modelled as an unbounded sequence of raw draws, consumed from
  the front. \<open>random.choice\<close>, \<open>random.randint\<close> and \<open>random.randrange\<close> reduce the next
  draw into their range, so every result the library can give is the image of some
  draw, and a statement for every source covers every run.
\<close>

type_synonym random_source = "nat \<Rightarrow> nat"

definition advance :: "random_source \<Rightarrow> random_source" where
  "advance r = (\<lambda>i. r (Suc i))"

definition random_choice :: "'a list \<Rightarrow> random_source \<Rightarrow> error + ('a \<times> random_source)" where
  "random_choice seq r =
     (if seq = [] then Inl (IndexError ''Cannot choose from an empty sequence'')
      else Inr (seq ! (r 0 mod length seq), advance r))"

definition random_randint :: "int \<Rightarrow> int \<Rightarrow> random_source \<Rightarrow> error + (int \<times> random_source)" where
  "random_randint a b r =
     (if b < a then Inl (ValueError ''empty range for randrange()'')
      else Inr (a + int (r 0 mod nat (b - a + 1)), advance r))"

definition random_randrange :: "int \<Rightarrow> int \<Rightarrow> random_source \<Rightarrow> error + (int \<times> random_source)" where
  "random_randrange start stop r =
     (if stop \<le> start then Inl (ValueError ''empty range for randrange()'')
      else Inr (start + int (r 0 mod nat (stop - start)), advance r))"

section \<open>PasswordRules\<close>

record password_rules =
  min_number_of_chars :: int
  max_number_of_chars :: int
  allowed_special_characters :: "char list"
  is_lower_case_required :: bool
  is_upper_case_required :: bool
  is_number_required :: bool
  is_special_character_required :: bool
  customized_beginning :: string
  customized_end :: string
  length_of_customized_beginning :: int
  length_of_customized_end :: int

text \<open>\<open>PasswordRules.__init__\<close>.\<close>

definition init_rules :: password_rules where
  "init_rules = \<lparr>
     min_number_of_chars = 1,
     max_number_of_chars = 1,
     allowed_special_characters = [],
     is_lower_case_required = False,
     is_upper_case_required = False,
     is_number_required = False,
     is_special_character_required = False,
     customized_beginning = [],
     customized_end = [],
     length_of_customized_beginning = 0,
     length_of_customized_end = 0 \<rparr>"

text \<open>The property setters that check their argument, and the two bulk setters.\<close>

definition set_min_number_of_chars :: "int \<Rightarrow> password_rules \<Rightarrow> error + password_rules" where
  "set_min_number_of_chars new_value rs =
     (if new_value > 0 then Inr (rs\<lparr>min_number_of_chars := new_value\<rparr>)
      else Inl (ValueError (''Set a valid integer value > 1 for attribute 'min_number_of_chars''
                            @ [CHR 0x27])))"

definition set_max_number_of_chars :: "int \<Rightarrow> password_rules \<Rightarrow> error + password_rules" where
  "set_max_number_of_chars new_value rs =
     (if new_value > 0 then Inr (rs\<lparr>max_number_of_chars := new_value\<rparr>)
      else Inl (ValueError (''Set a valid integer value > 1 for attribute 'max_number_of_chars''
                            @ [CHR 0x27])))"

definition set_customized_beginning :: "string \<Rightarrow> password_rules \<Rightarrow> password_rules" where
  "set_customized_beginning new_value rs =
     rs\<lparr>customized_beginning := new_value,
        length_of_customized_beginning := int (length new_value)\<rparr>"

definition set_customized_end :: "string \<Rightarrow> password_rules \<Rightarrow> password_rules" where
  "set_customized_end new_value rs =
     rs\<lparr>customized_end := new_value,
        length_of_customized_end := int (length new_value)\<rparr>"

definition set_presence_rules :: "bool \<Rightarrow> bool \<Rightarrow> bool \<Rightarrow> bool \<Rightarrow> password_rules \<Rightarrow> password_rules" where
  "set_presence_rules lower_case upper_case number special_character rs =
     rs\<lparr>is_lower_case_required := lower_case,
        is_upper_case_required := upper_case,
        is_number_required := number,
        is_special_character_required := special_character\<rparr>"

definition set_customized_strings :: "string \<Rightarrow> string \<Rightarrow> password_rules \<Rightarrow> password_rules" where
  "set_customized_strings beginning ending rs =
     rs\<lparr>customized_beginning := beginning,
        customized_end := ending,
        length_of_customized_beginning := int (length beginning),
        length_of_customized_end := int (length ending)\<rparr>"

text \<open>
  The two cached lengths have no setter of their own; every method that assigns a
  customized string assigns its length with it. This is the invariant they establish.
\<close>

definition lengths_in_sync :: "password_rules \<Rightarrow> bool" where
  "lengths_in_sync rs \<longleftrightarrow>
     length_of_customized_beginning rs = int (length (customized_beginning rs)) \<and>
     length_of_customized_end rs = int (length (customized_end rs))"

definition get_nb_of_presence_rules :: "password_rules \<Rightarrow> int" where
  "get_nb_of_presence_rules rs =
     of_bool (is_lower_case_required rs) + of_bool (is_upper_case_required rs) +
     of_bool (is_number_required rs) + of_bool (is_special_character_required rs)"

definition is_lower_case_rule_satisfied :: "password_rules \<Rightarrow> string \<Rightarrow> bool" where
  "is_lower_case_rule_satisfied rs string_to_check = list_ex islower string_to_check"

definition is_upper_case_rule_satisfied :: "password_rules \<Rightarrow> string \<Rightarrow> bool" where
  "is_upper_case_rule_satisfied rs string_to_check = list_ex isupper string_to_check"

definition is_number_rule_satisfied :: "password_rules \<Rightarrow> string \<Rightarrow> bool" where
  "is_number_rule_satisfied rs string_to_check = list_ex isdigit string_to_check"

definition is_special_character_rule_satisfied :: "password_rules \<Rightarrow> string \<Rightarrow> bool" where
  "is_special_character_rule_satisfied rs string_to_check =
     list_ex (\<lambda>c. c \<in> set (allowed_special_characters rs)) string_to_check"

definition get_nb_of_rules_satisfied_by_string :: "password_rules \<Rightarrow> string \<Rightarrow> int" where
  "get_nb_of_rules_satisfied_by_string rs string_to_check =
     of_bool (is_lower_case_required rs \<and> is_lower_case_rule_satisfied rs string_to_check) +
     of_bool (is_upper_case_required rs \<and> is_upper_case_rule_satisfied rs string_to_check) +
     of_bool (is_number_required rs \<and> is_number_rule_satisfied rs string_to_check) +
     of_bool (is_special_character_required rs \<and>
              is_special_character_rule_satisfied rs string_to_check)"

text \<open>\<open>PasswordRules.__check_string_consistency\<close> (the logging calls have no effect on the result).\<close>

definition check_string_consistency :: "password_rules \<Rightarrow> string \<Rightarrow> bool" where
  "check_string_consistency rs string_to_check =
     (if \<not> is_lower_case_required rs \<and> list_ex islower string_to_check then False
      else if \<not> is_upper_case_required rs \<and> list_ex isupper string_to_check then False
      else if \<not> is_number_required rs \<and> list_ex isdigit string_to_check then False
      else if \<not> is_special_character_required rs then
        (if list_ex (\<lambda>c. \<not> isdigit c \<and> \<not> isalpha c) string_to_check then False else True)
      else if list_ex (\<lambda>c. c \<notin> set (allowed_special_characters rs) \<and>
                            \<not> isdigit c \<and> \<not> isalpha c) string_to_check then False
      else True)"

text \<open>The reasons \<open>check_rules_consistency\<close> can return, in the order of its checks.\<close>

definition reason_no_presence_rule :: string where
  "reason_no_presence_rule = ''At least one presence rule must be selected''"

definition reason_first_chars_too_long :: string where
  "reason_first_chars_too_long =
     ''The number of customized first chars cannot be greater than 'max number of chars''
     @ [CHR 0x27]"

definition reason_last_chars_too_long :: string where
  "reason_last_chars_too_long =
     ''The number of customized last chars cannot be greater than 'max number of chars''
     @ [CHR 0x27]"

definition reason_total_chars_too_long :: string where
  "reason_total_chars_too_long =
     ''The total number of customized chars cannot be greater than 'max number of chars''
     @ [CHR 0x27]"

definition reason_first_chars_inconsistent :: string where
  "reason_first_chars_inconsistent =
     ''The customized first chars are not consistent with at least one rule''"

definition reason_last_chars_inconsistent :: string where
  "reason_last_chars_inconsistent =
     ''The customized last chars are not consistent with at least one rule''"

definition reason_min_greater_than_max :: string where
  "reason_min_greater_than_max =
     CHR 0x27 # ''min number of chars' cannot be greater than 'max number of chars''
     @ [CHR 0x27]"

definition reason_presence_min :: string where
  "reason_presence_min =
     ''All presence rules cannot be satisfied with current 'min nb of chars'' @ [CHR 0x27]"

definition reason_presence_max :: string where
  "reason_presence_max =
     ''All presence rules cannot be satisfied with current settings ('max_nb_of_chars', customized beginning and customized end)''"

definition reason_no_special_character :: string where
  "reason_no_special_character =
     CHR 0x27 # ''special character' rule selected but no special character provided''"

text \<open>
  The last check of \<open>check_rules_consistency\<close>, reached from every branch of the checks
  before it that does not return.
\<close>

definition check_special_character_rule :: "password_rules \<Rightarrow> bool \<times> string" where
  "check_special_character_rule rs =
     (if is_special_character_required rs \<and> allowed_special_characters rs = [] then
        (False, reason_no_special_character)
      else (True, []))"

text \<open>
  \<open>PasswordRules.check_rules_consistency\<close>: the pair of the consistency indicator and
  the reason, the checks in the order of the source, the first failing one returning.
\<close>

definition check_rules_consistency :: "password_rules \<Rightarrow> bool \<times> string" where
  "check_rules_consistency rs =
     (let nb_of_presence_rules = get_nb_of_presence_rules rs in
      if nb_of_presence_rules = 0 then (False, reason_no_presence_rule)
      else if length_of_customized_beginning rs + length_of_customized_end rs
                > max_number_of_chars rs then
        (if length_of_customized_beginning rs > max_number_of_chars rs then
           (False, reason_first_chars_too_long)
         else if length_of_customized_end rs > max_number_of_chars rs then
           (False, reason_last_chars_too_long)
         else (False, reason_total_chars_too_long))
      else if length_of_customized_beginning rs > 0
                \<and> \<not> check_string_consistency rs (customized_beginning rs) then
        (False, reason_first_chars_inconsistent)
      else if length_of_customized_end rs > 0
                \<and> \<not> check_string_consistency rs (customized_end rs) then
        (False, reason_last_chars_inconsistent)
      else if min_number_of_chars rs > max_number_of_chars rs then
        (False, reason_min_greater_than_max)
      else if nb_of_presence_rules > min_number_of_chars rs then
        (if customized_beginning rs = [] \<and> customized_end rs = [] then
           (False, reason_presence_min)
         else
           (let nb_of_satisfied_rules =
                  get_nb_of_rules_satisfied_by_string rs
                    (customized_beginning rs @ customized_end rs)
            in if nb_of_satisfied_rules < nb_of_presence_rules then
                 (if max_number_of_chars rs
                       - int (length (customized_beginning rs @ customized_end rs))
                     < nb_of_presence_rules - nb_of_satisfied_rules then
                    (False, reason_presence_max)
                  else check_special_character_rule rs)
               else check_special_character_rule rs))
      else check_special_character_rule rs)"

section \<open>PasswordGenerator\<close>

text \<open>
  The dictionary \<open>rules_states\<close> of \<open>generate\<close> has four fixed keys, each holding the pair
  (required, satisfied); it is a record with one field per key.
\<close>

record rules_states =
  lower_case :: "bool \<times> bool"
  upper_case :: "bool \<times> bool"
  number :: "bool \<times> bool"
  special_character :: "bool \<times> bool"

text \<open>
  The loop \<open>for i in range(nb_of_unsatisfied_rules)\<close>: each round serves the first rule
  that is required and not yet satisfied, and the loop is left when there is none.
\<close>

fun satisfy_rules ::
  "nat \<Rightarrow> password_rules \<Rightarrow> rules_states \<Rightarrow> string \<Rightarrow> random_source
     \<Rightarrow> error + (string \<times> rules_states \<times> random_source)" where
  "satisfy_rules 0 rs st password r = Inr (password, st, r)"
| "satisfy_rules (Suc n) rs st password r =
     (if fst (lower_case st) \<and> \<not> snd (lower_case st) then
        (case random_choice ascii_lowercase r of
           Inl e \<Rightarrow> Inl e
         | Inr (c, r') \<Rightarrow>
             satisfy_rules n rs (st\<lparr>lower_case := (fst (lower_case st), True)\<rparr>)
               (password @ [c]) r')
      else if fst (upper_case st) \<and> \<not> snd (upper_case st) then
        (case random_choice ascii_uppercase r of
           Inl e \<Rightarrow> Inl e
         | Inr (c, r') \<Rightarrow>
             satisfy_rules n rs (st\<lparr>upper_case := (fst (upper_case st), True)\<rparr>)
               (password @ [c]) r')
      else if fst (number st) \<and> \<not> snd (number st) then
        (case random_randint 0 9 r of
           Inl e \<Rightarrow> Inl e
         | Inr (d, r') \<Rightarrow>
             satisfy_rules n rs (st\<lparr>number := (fst (number st), True)\<rparr>)
               (password @ str_int d) r')
      else if fst (special_character st) \<and> \<not> snd (special_character st) then
        (case random_choice (allowed_special_characters rs) r of
           Inl e \<Rightarrow> Inl e
         | Inr (c, r') \<Rightarrow>
             satisfy_rules n rs
               (st\<lparr>special_character := (fst (special_character st), True)\<rparr>)
               (password @ [c]) r')
      else Inr (password, st, r))"

text \<open>The loops \<open>for i in range(k): password += random.choice(additional_chars)\<close>.\<close>

fun add_random_chars ::
  "nat \<Rightarrow> char list \<Rightarrow> string \<Rightarrow> random_source \<Rightarrow> error + (string \<times> random_source)" where
  "add_random_chars 0 additional_chars password r = Inr (password, r)"
| "add_random_chars (Suc k) additional_chars password r =
     (case random_choice additional_chars r of
        Inl e \<Rightarrow> Inl e
      | Inr (c, r') \<Rightarrow> add_random_chars k additional_chars (password @ [c]) r')"

definition additional_chars_of :: "password_rules \<Rightarrow> char list" where
  "additional_chars_of rs =
     (if is_lower_case_required rs then ascii_lowercase else []) @
     (if is_upper_case_required rs then ascii_uppercase else []) @
     (if is_number_required rs then digits else []) @
     (if is_special_character_required rs then allowed_special_characters rs else [])"

text \<open>The state of the rules after the customized strings have been taken into account.\<close>

definition initial_rules_states :: "password_rules \<Rightarrow> rules_states" where
  "initial_rules_states rs = \<lparr>
     lower_case = (is_lower_case_required rs, False),
     upper_case = (is_upper_case_required rs, False),
     number = (is_number_required rs, False),
     special_character = (is_special_character_required rs, False) \<rparr>"

definition customized_rules_states :: "password_rules \<Rightarrow> rules_states \<times> int" where
  "customized_rules_states rs =
     (let rules_states = initial_rules_states rs in
      if length_of_customized_beginning rs > 0 \<or> length_of_customized_end rs > 0 then
        (let customized_string = customized_beginning rs @ customized_end rs;
             nb_of_satisfied_rules = get_nb_of_rules_satisfied_by_string rs customized_string;
             nb_of_unsatisfied_rules = get_nb_of_presence_rules rs - nb_of_satisfied_rules
         in if nb_of_satisfied_rules > 0 then
              (let s1 = (if fst (lower_case rules_states)
                         then rules_states\<lparr>lower_case :=
                                (True, is_lower_case_rule_satisfied rs customized_string)\<rparr>
                         else rules_states);
                   s2 = (if fst (upper_case s1)
                         then s1\<lparr>upper_case :=
                                (True, is_upper_case_rule_satisfied rs customized_string)\<rparr>
                         else s1);
                   s3 = (if fst (number s2)
                         then s2\<lparr>number :=
                                (True, is_number_rule_satisfied rs customized_string)\<rparr>
                         else s2);
                   s4 = (if fst (special_character s3)
                         then s3\<lparr>special_character :=
                                (True, is_special_character_rule_satisfied rs customized_string)\<rparr>
                         else s3)
               in (s4, nb_of_unsatisfied_rules))
            else (rules_states, nb_of_unsatisfied_rules))
      else (rules_states, get_nb_of_presence_rules rs))"

text \<open>
  \<open>PasswordGenerator.generate\<close>. The result is \<open>Inl\<close> of the exception raised or \<open>Inr\<close> of
  the password returned. Two of its steps are functions of their own: \<open>fill_password\<close>
  is the completion with a random number of additional characters, \<open>top_up_password\<close>
  the loop that brings the password to the minimum.
\<close>

definition fill_password ::
  "password_rules \<Rightarrow> string \<Rightarrow> random_source \<Rightarrow> error + (string \<times> random_source)" where
  "fill_password rs password r =
     (let nb_of_chars_left =
            max_number_of_chars rs - int (length password) - length_of_customized_end rs
      in if nb_of_chars_left > 0 then
           (case random_randrange 1 (nb_of_chars_left + 1) r of
              Inl e \<Rightarrow> Inl e
            | Inr (k, r') \<Rightarrow> add_random_chars (nat k) (additional_chars_of rs) password r')
         else Inr (password, r))"

definition top_up_password ::
  "password_rules \<Rightarrow> string \<Rightarrow> random_source \<Rightarrow> error + (string \<times> random_source)" where
  "top_up_password rs password r =
     (if int (length password) + length_of_customized_end rs < min_number_of_chars rs then
        add_random_chars
          (nat (min_number_of_chars rs
                 - (int (length password) + length_of_customized_end rs)))
          (additional_chars_of rs) password r
      else Inr (password, r))"

definition generate :: "password_rules \<Rightarrow> random_source \<Rightarrow> error + string" where
  "generate rs r =
     (case check_rules_consistency rs of
        (are_rules_consistent, inconsistency_reason) \<Rightarrow>
          if \<not> are_rules_consistent then Inl (PasswordRuleError inconsistency_reason)
          else
            (case customized_rules_states rs of
               (rules_states, nb_of_unsatisfied_rules) \<Rightarrow>
                 (case satisfy_rules (nat nb_of_unsatisfied_rules) rs rules_states
                         (customized_beginning rs) r of
                    Inl e \<Rightarrow> Inl e
                  | Inr (password1, st, r1) \<Rightarrow>
                      (case fill_password rs password1 r1 of
                         Inl e \<Rightarrow> Inl e
                       | Inr (password2, r2) \<Rightarrow>
                           (case top_up_password rs password2 r2 of
                              Inl e \<Rightarrow> Inl e
                            | Inr (password3, r3) \<Rightarrow>
                                if length_of_customized_end rs > 0
                                then Inr (password3 @ customized_end rs)
                                else Inr password3)))))"

section \<open>Rule sets of the scenarios\<close>

text \<open>Scenario B: maximum 3, customized beginning \<open>AB1\<close>, lower case, upper case and number required.\<close>

definition scenario_B :: password_rules where
  "scenario_B =
     set_customized_strings ''AB1'' []
       (set_presence_rules True True True False (init_rules\<lparr>max_number_of_chars := 3\<rparr>))"

text \<open>The same rule set with only the rules that \<open>AB1\<close> satisfies: upper case and number.\<close>

definition scenario_B_upper_number :: password_rules where
  "scenario_B_upper_number =
     set_customized_strings ''AB1'' []
       (set_presence_rules False True True False (init_rules\<lparr>max_number_of_chars := 3\<rparr>))"

text \<open>Scenario C: maximum 2, customized beginning \<open>AB1\<close>, everything else as initialised.\<close>

definition scenario_C :: password_rules where
  "scenario_C = set_customized_strings ''AB1'' [] (init_rules\<lparr>max_number_of_chars := 2\<rparr>)"

definition scenario_C_lower :: password_rules where
  "scenario_C_lower = set_presence_rules True False False False scenario_C"

section \<open>PasswordChecker\<close>

record password_checker =
  password :: string
  has_to_be_hidden :: bool

text \<open>
  What \<open>requests.get\<close> gives: the status code and the text of the response. The remote
  service is a function from the URL to the response, or to the exception that
  \<open>requests\<close> raises when no response arrives.
\<close>

record response =
  status_code :: int
  response_text :: string

type_synonym remote = "string \<Rightarrow> error + response"

text \<open>
  A count travels as an \<open>int\<close> or as a \<open>str\<close>; \<open>truthy\<close> is its value in a condition and
  \<open>format_value\<close> its text in an f-string.
\<close>

datatype pyval = PyInt int | PyStr string

fun truthy :: "pyval \<Rightarrow> bool" where
  "truthy (PyInt i) = (i \<noteq> 0)"
| "truthy (PyStr s) = (s \<noteq> [])"

fun format_value :: "pyval \<Rightarrow> string" where
  "format_value (PyInt i) = str_int i"
| "format_value (PyStr s) = s"

text \<open>
  \<open>str.upper\<close> on the text of \<open>hexdigest()\<close>, which is made of the characters \<open>0-9\<close> and
  \<open>a-f\<close>: the ASCII lower case letters move to upper case, the digits stay.
\<close>

definition upper_char :: "char \<Rightarrow> char" where
  "upper_char c = (let n = ord c in if 97 \<le> n \<and> n \<le> 122 then char_of (n - 32) else c)"

definition str_upper :: "string \<Rightarrow> string" where
  "str_upper s = map upper_char s"

text \<open>
  \<open>str.splitlines\<close>: a line ends at a line boundary (for the code points of the model:
  LF, VT, FF, CR, CR LF, FS, GS, RS, NEL), the boundaries are dropped, and no empty line
  follows the last boundary.
\<close>

definition is_line_boundary :: "char \<Rightarrow> bool" where
  "is_line_boundary c = (let n = ord c in
     n = 10 \<or> n = 11 \<or> n = 12 \<or> n = 13 \<or> n = 28 \<or> n = 29 \<or> n = 30 \<or> n = 133)"

fun splitlines_from :: "string \<Rightarrow> string \<Rightarrow> string list" where
  "splitlines_from line [] = (if line = [] then [] else [line])"
| "splitlines_from line (c # cs) =
     (if ord c = 13 then
        (case cs of
           [] \<Rightarrow> [line]
         | d # ds \<Rightarrow> if ord d = 10 then line # splitlines_from [] ds
                     else line # splitlines_from [] (d # ds))
      else if is_line_boundary c then line # splitlines_from [] cs
      else splitlines_from (line @ [c]) cs)"

definition str_splitlines :: "string \<Rightarrow> string list" where
  "str_splitlines s = splitlines_from [] s"

text \<open>\<open>str.split(sep)\<close> for a separator of one character: one more field than separators.\<close>

fun split_from :: "char \<Rightarrow> string \<Rightarrow> string \<Rightarrow> string list" where
  "split_from sep field [] = [field]"
| "split_from sep field (c # cs) =
     (if c = sep then field # split_from sep [] cs else split_from sep (field @ [c]) cs)"

definition str_split :: "char \<Rightarrow> string \<Rightarrow> string list" where
  "str_split sep s = split_from sep [] s"

text \<open>
  \<open>PasswordChecker.__request_api_data\<close>. Every function that can reach the network
  returns, beside its result, the list of the URLs requested, in order.
\<close>

definition request_api_data :: "remote \<Rightarrow> string \<Rightarrow> (error + response) \<times> string list" where
  "request_api_data remote url =
     (case remote url of
        Inl e \<Rightarrow> (Inl e, [url])
      | Inr resp \<Rightarrow>
          if status_code resp \<noteq> 200 then
            (Inl (RuntimeError (''Error fetching : response status code = ''
                                @ str_int (status_code resp)
                                @ '', check the API and try again'')), [url])
          else (Inr resp, [url]))"

text \<open>
  \<open>PasswordChecker.__get_pwd_leaks_count\<close>. The loop unpacks each split line into
  \<open>tail, count\<close>, which raises \<open>ValueError\<close> unless the line has exactly two fields; the
  generator is consumed line by line, so a malformed line after the match is never
  reached.
\<close>

fun leaks_count_loop :: "string list list \<Rightarrow> string \<Rightarrow> error + pyval" where
  "leaks_count_loop [] hashed_pwd_tail = Inr (PyInt 0)"
| "leaks_count_loop (parts # hashes) hashed_pwd_tail =
     (case parts of
        [tail, count] \<Rightarrow>
          if tail = hashed_pwd_tail then Inr (PyStr count)
          else leaks_count_loop hashes hashed_pwd_tail
      | [] \<Rightarrow> Inl (ValueError ''not enough values to unpack (expected 2, got 0)'')
      | [x] \<Rightarrow> Inl (ValueError ''not enough values to unpack (expected 2, got 1)'')
      | _ \<Rightarrow> Inl (ValueError ''too many values to unpack (expected 2)''))"

definition get_pwd_leaks_count :: "response \<Rightarrow> string \<Rightarrow> error + pyval" where
  "get_pwd_leaks_count hashes hashed_pwd_tail =
     leaks_count_loop (map (str_split CHR '':'') (str_splitlines (response_text hashes)))
       hashed_pwd_tail"

text \<open>
  \<open>PasswordChecker.__pwned_api_check\<close>. The digest of \<open>hashlib\<close> is a parameter:
  \<open>sha1_hexdigest password\<close> stands for
  \<open>hashlib.sha1(password.encode("utf-8")).hexdigest()\<close>.
\<close>

definition range_url :: string where
  "range_url = ''https://api.pwnedpasswords.com/range/''"

definition pwned_api_check ::
  "(string \<Rightarrow> string) \<Rightarrow> remote \<Rightarrow> string \<Rightarrow> (error + pyval) \<times> string list" where
  "pwned_api_check sha1_hexdigest remote pwd =
     (let sha1_pwd = str_upper (sha1_hexdigest pwd);
          first_5_chars = take 5 sha1_pwd;
          tail = drop 5 sha1_pwd;
          url = range_url @ first_5_chars
      in case request_api_data remote url of
           (Inl (RuntimeError e), requested) \<Rightarrow>
             (Inr (PyStr (''Failed to get the information ('' @ e @ '')'')), requested)
         | (Inl e, requested) \<Rightarrow> (Inl e, requested)
         | (Inr resp, requested) \<Rightarrow> (get_pwd_leaks_count resp tail, requested))"

text \<open>\<open>PasswordChecker.check\<close>.\<close>

definition check ::
  "(string \<Rightarrow> string) \<Rightarrow> remote \<Rightarrow> password_checker \<Rightarrow> (error + string) \<times> string list" where
  "check sha1_hexdigest remote pc =
     (if password pc \<noteq> [] then
        (case pwned_api_check sha1_hexdigest remote (password pc) of
           (Inl e, requested) \<Rightarrow> (Inl e, requested)
         | (Inr count, requested) \<Rightarrow>
             (let password_string =
                    (if \<not> has_to_be_hidden pc then password pc else ''This password'')
              in if truthy count then
                   (Inr (password_string @ '' has already been exposed in data breaches (''
                         @ format_value count @ '' times) : you should probably change it !!''),
                    requested)
                 else
                   (Inr (password_string
                         @ '' has never been exposed in data breaches : you can keep it :-)''),
                    requested)))
      else (Inr ''Empty password provided. No reason to check it !'', []))"

section \<open>Inputs of the checker scenarios\<close>

text \<open>
  A digest function given by a table, for running the checker on concrete passwords:
  the entry of \<open>password\<close> is its SHA-1 digest, the second entry shares the first five
  characters with it, and every other password gets the digest of the empty string.
\<close>

definition table_digest :: "string \<Rightarrow> string" where
  "table_digest pwd =
     (if pwd = ''password'' then ''5baa61e4c9b93f3f0682250b6cf8331b7ee68fd8''
      else if pwd = ''another'' then ''5baa6f00000000000000000000000000000000ff''
      else ''da39a3ee5e6b4b0d3255bfef95601890afd80709'')"

definition canned_body :: string where
  "canned_body =
     ''1E4C9B93F3F0682250B6CF8331B7EE68FD8:3533661'' @ [CHR 0x0A] @ ''AAAAA...:0''"

definition canned_tail :: string where
  "canned_tail = ''1E4C9B93F3F0682250B6CF8331B7EE68FD8''"

definition lower_case_body :: string where
  "lower_case_body = ''1e4c9b93f3f0682250b6cf8331b7ee68fd8:3533661''"

definition remote_ok :: "string \<Rightarrow> remote" where
  "remote_ok body = (\<lambda>url. Inr \<lparr>status_code = 200, response_text = body\<rparr>)"

definition remote_status :: "int \<Rightarrow> remote" where
  "remote_status code = (\<lambda>url. Inr \<lparr>status_code = code, response_text = []\<rparr>)"

definition hidden_checker :: password_checker where
  "hidden_checker = \<lparr>password = ''password'', has_to_be_hidden = True\<rparr>"

definition shown_checker :: password_checker where
  "shown_checker = \<lparr>password = ''another'', has_to_be_hidden = False\<rparr>"

text \<open>The body of a successful response read as records: one list of fields per line.\<close>

definition response_records :: "string \<Rightarrow> string list list" where
  "response_records body = map (str_split CHR '':'') (str_splitlines body)"

section \<open>Notions for stating the properties\<close>

text \<open>
  A rule of \<open>rules_states\<close> is pending when it is required and not yet satisfied;
  \<open>nb_pending\<close> counts the pending rules, and \<open>covers rs st ext\<close> says that the
  characters \<open>ext\<close> serve exactly the rules pending in \<open>st\<close>: one character each, taken
  from the alphabet of its rule.
\<close>

definition pending :: "bool \<times> bool \<Rightarrow> bool" where
  "pending p \<longleftrightarrow> fst p \<and> \<not> snd p"

definition nb_pending :: "rules_states \<Rightarrow> nat" where
  "nb_pending st =
     of_bool (pending (lower_case st)) + of_bool (pending (upper_case st)) +
     of_bool (pending (number st)) + of_bool (pending (special_character st))"

definition covers :: "password_rules \<Rightarrow> rules_states \<Rightarrow> string \<Rightarrow> bool" where
  "covers rs st ext \<longleftrightarrow>
     length ext = nb_pending st \<and>
     (pending (lower_case st) \<longrightarrow> list_ex (\<lambda>c. c \<in> set ascii_lowercase) ext) \<and>
     (pending (upper_case st) \<longrightarrow> list_ex (\<lambda>c. c \<in> set ascii_uppercase) ext) \<and>
     (pending (number st) \<longrightarrow> list_ex (\<lambda>c. c \<in> set digits) ext) \<and>
     (pending (special_character st) \<longrightarrow>
        list_ex (\<lambda>c. c \<in> set (allowed_special_characters rs)) ext) \<and>
     set ext \<subseteq>
       (if pending (lower_case st) then set ascii_lowercase else {}) \<union>
       (if pending (upper_case st) then set ascii_uppercase else {}) \<union>
       (if pending (number st) then set digits else {}) \<union>
       (if pending (special_character st) then set (allowed_special_characters rs) else {})"

text \<open>
  The allowed special characters stay within the rules: when the special character
  rule is required, an allowed special character that \<open>str.islower\<close>, \<open>str.isupper\<close> or
  \<open>str.isdigit\<close> accepts has the rule of its class required too.
\<close>

definition special_characters_within_rules :: "password_rules \<Rightarrow> bool" where
  "special_characters_within_rules rs \<longleftrightarrow>
     (is_special_character_required rs \<longrightarrow>
        list_all (\<lambda>c. (islower c \<longrightarrow> is_lower_case_required rs) \<and>
                      (isupper c \<longrightarrow> is_upper_case_required rs) \<and>
                      (isdigit c \<longrightarrow> is_number_required rs))
          (allowed_special_characters rs))"

text \<open>
  The condition of the room check as the specification words it: the required rules
  that the customized strings do not satisfy are more than the characters that the
  maximum leaves beside the customized strings.
\<close>

definition unsatisfied_rules_exceed_room :: "password_rules \<Rightarrow> bool" where
  "unsatisfied_rules_exceed_room rs \<longleftrightarrow>
     get_nb_of_presence_rules rs
       - get_nb_of_rules_satisfied_by_string rs (customized_beginning rs @ customized_end rs)
     > max_number_of_chars rs - length_of_customized_beginning rs - length_of_customized_end rs"

text \<open>Rule sets on which the generator and the validator are run below.\<close>

definition tight_rules :: password_rules where
  "tight_rules =
     set_customized_strings ''aa'' []
       (set_presence_rules True True False False
          (init_rules\<lparr>min_number_of_chars := 2, max_number_of_chars := 2\<rparr>))"

definition accented_beginning_rules :: password_rules where
  "accented_beginning_rules =
     set_customized_strings [CHR 0xE9] []
       (set_presence_rules True False False False
          (init_rules\<lparr>min_number_of_chars := 1, max_number_of_chars := 1\<rparr>))"

definition letter_as_special_rules :: password_rules where
  "letter_as_special_rules =
     set_presence_rules False False False True
       (init_rules\<lparr>allowed_special_characters := ''A''\<rparr>)"

definition mixed_rules :: password_rules where
  "mixed_rules =
     set_customized_strings ''a'' ''#''
       (set_presence_rules True False True True
          (init_rules\<lparr>min_number_of_chars := 6, max_number_of_chars := 8,
                      allowed_special_characters := ''#!''\<rparr>))"

section \<open>Properties of the generator\<close>

text \<open>
  Claim C10. Whenever \<open>check_rules_consistency\<close> returns \<open>(False, reason)\<close>, \<open>generate\<close>
  raises \<open>PasswordRuleError\<close> carrying exactly that reason, for every randomness source:
  it validates the rules first and returns no password for an inconsistent rule set.
\<close>

theorem generate_raises_on_inconsistent_rules:
  "check_rules_consistency rs = (False, reason) \<Longrightarrow>
   generate rs r = Inl (PasswordRuleError reason)"
  by (simp add: generate_def)

theorem generate_raises_on_inconsistent_rules_witness:
  "check_rules_consistency scenario_C = (False, reason_no_presence_rule) \<and>
   generate scenario_C (\<lambda>_. 0) = Inl (PasswordRuleError reason_no_presence_rule)"
proof -
  have h: "check_rules_consistency scenario_C = (False, reason_no_presence_rule)"
    by code_simp
  from generate_raises_on_inconsistent_rules [OF h, of "\<lambda>_. 0"] h show ?thesis
    by simp
qed

text \<open>
  Claim C4, as stated, fails: for scenario B validation answers that the presence rules
  cannot all be satisfied (\<open>AB1\<close> holds no lower case letter and fills the maximum), and
  \<open>generate\<close> raises.
\<close>

theorem scenario_B_counterexample:
  "check_rules_consistency scenario_B = (False, reason_presence_max) \<and>
   generate scenario_B (\<lambda>_. 0) = Inl (PasswordRuleError reason_presence_max) \<and>
   generate scenario_B (\<lambda>_. 0) \<noteq> Inr ''AB1''"
  by code_simp

text \<open>
  Claim C4, amended. Scenario B is inconsistent, with the reason that the presence rules
  cannot be satisfied with the maximum and the customized strings, and \<open>generate\<close> raises
  \<open>PasswordRuleError\<close> with that reason. With the rules that the beginning does satisfy
  (upper case and number), the rule set is consistent and \<open>generate\<close> returns exactly
  \<open>AB1\<close>, whatever the randomness source.
\<close>

theorem scenario_B_amended:
  "check_rules_consistency scenario_B = (False, reason_presence_max) \<and>
   generate scenario_B r = Inl (PasswordRuleError reason_presence_max) \<and>
   check_rules_consistency scenario_B_upper_number = (True, []) \<and>
   generate scenario_B_upper_number r = Inr ''AB1''"
  by code_simp

text \<open>
  Claim C5, as stated, fails: scenario C selects no presence rule, and that check comes
  first, so the reason is the one of the missing presence rule.
\<close>

theorem scenario_C_counterexample:
  "check_rules_consistency scenario_C = (False, reason_no_presence_rule) \<and>
   check_rules_consistency scenario_C \<noteq> (False, reason_first_chars_too_long)"
  by code_simp

text \<open>
  Claim C5, amended. For a rule set with maximum 2 and customized beginning \<open>AB1\<close>,
  validation returns inconsistent; the reason is the missing presence rule when none is
  selected, and otherwise that the customized first chars cannot be more than the
  maximum number of chars.
\<close>

theorem first_chars_too_long:
  "max_number_of_chars rs = 2 \<Longrightarrow> customized_beginning rs = ''AB1'' \<Longrightarrow>
   lengths_in_sync rs \<Longrightarrow>
   check_rules_consistency rs =
     (False, if get_nb_of_presence_rules rs = 0 then reason_no_presence_rule
             else reason_first_chars_too_long)"
  by (simp add: check_rules_consistency_def lengths_in_sync_def Let_def)

theorem first_chars_too_long_witness:
  "max_number_of_chars scenario_C_lower = 2 \<and>
   customized_beginning scenario_C_lower = ''AB1'' \<and>
   lengths_in_sync scenario_C_lower \<and>
   get_nb_of_presence_rules scenario_C_lower \<noteq> 0 \<and>
   check_rules_consistency scenario_C_lower = (False, reason_first_chars_too_long)"
proof -
  have h1: "max_number_of_chars scenario_C_lower = 2" by code_simp
  have h2: "customized_beginning scenario_C_lower = ''AB1''" by code_simp
  have h3: "lengths_in_sync scenario_C_lower" by code_simp
  have h4: "get_nb_of_presence_rules scenario_C_lower \<noteq> 0" by code_simp
  from first_chars_too_long [OF h1 h2 h3] h1 h2 h3 h4 show ?thesis
    by simp
qed

subsection \<open>The password that generate returns\<close>

lemma random_choice_ok:
  "seq \<noteq> [] \<Longrightarrow> \<exists>c r'. random_choice seq r = Inr (c, r') \<and> c \<in> set seq"
  by (simp add: random_choice_def)

lemma random_randint_digit:
  "\<exists>d r'. random_randint 0 9 r = Inr (d, r') \<and> 0 \<le> d \<and> d \<le> 9"
  by (simp add: random_randint_def)

lemma digits_isdigit: "c \<in> set digits \<Longrightarrow> isdigit c"
  by (auto simp: digits_def isdigit_def ord_def)

lemma str_int_table: "map (\<lambda>n. str_int (int n)) [0..<10] = map (\<lambda>c. [c]) digits"
  by code_simp

lemma str_int_digit:
  assumes "0 \<le> d" and "d \<le> 9"
  shows "\<exists>c. str_int d = [c] \<and> c \<in> set digits"
proof -
  from assms have n: "nat d < 10" by simp
  have len: "length digits = 10" by (simp add: digits_def)
  from n have "map (\<lambda>n. str_int (int n)) [0..<10] ! nat d = str_int (int (nat d))"
    by simp
  moreover from n len have "map (\<lambda>c. [c]) digits ! nat d = [digits ! nat d]"
    by simp
  ultimately have "str_int d = [digits ! nat d]"
    using str_int_table assms by simp
  moreover from n len have "digits ! nat d \<in> set digits" by simp
  ultimately show ?thesis by blast
qed

lemma ascii_lowercase_islower: "c \<in> set ascii_lowercase \<Longrightarrow> islower c"
  by (auto simp: ascii_lowercase_def islower_def ord_def)

lemma ascii_uppercase_isupper: "c \<in> set ascii_uppercase \<Longrightarrow> isupper c"
  by (auto simp: ascii_uppercase_def isupper_def ord_def)

lemma add_random_chars_ok:
  "pool \<noteq> [] \<Longrightarrow>
   \<exists>ext r'. add_random_chars k pool pw r = Inr (pw @ ext, r') \<and> length ext = k
             \<and> set ext \<subseteq> set pool"
proof (induction k arbitrary: pw r)
  case 0
  then show ?case by simp
next
  case (Suc k)
  from random_choice_ok [OF Suc.prems, of r] obtain c r1
    where c: "random_choice pool r = Inr (c, r1)" "c \<in> set pool" by blast
  from Suc.IH [OF Suc.prems, of "pw @ [c]" r1] obtain ext r'
    where e: "add_random_chars k pool (pw @ [c]) r1 = Inr ((pw @ [c]) @ ext, r')"
      "length ext = k" "set ext \<subseteq> set pool" by blast
  have "add_random_chars (Suc k) pool pw r = Inr (pw @ (c # ext), r')"
    using c e by simp
  moreover have "length (c # ext) = Suc k" using e by simp
  moreover have "set (c # ext) \<subseteq> set pool" using c e by simp
  ultimately show ?case by blast
qed

lemma consistent_facts:
  assumes "check_rules_consistency rs = (True, [])"
  shows "get_nb_of_presence_rules rs \<noteq> 0"
    and "length_of_customized_beginning rs + length_of_customized_end rs \<le> max_number_of_chars rs"
    and "min_number_of_chars rs \<le> max_number_of_chars rs"
    and "is_special_character_required rs \<Longrightarrow> allowed_special_characters rs \<noteq> []"
  using assms
  by (auto simp: check_rules_consistency_def check_special_character_rule_def Let_def
           split: if_splits)

lemma covers_none: "nb_pending st = 0 \<Longrightarrow> covers rs st []"
  by (auto simp: covers_def nb_pending_def split: if_splits)

lemma covers_lower:
  assumes "pending (lower_case st)" and "c \<in> set ascii_lowercase"
    and "covers rs (st\<lparr>lower_case := (fst (lower_case st), True)\<rparr>) ext"
  shows "covers rs st (c # ext)"
  using assms
  by (auto simp: covers_def nb_pending_def pending_def)

lemma covers_upper:
  assumes "pending (upper_case st)" and "c \<in> set ascii_uppercase"
    and "covers rs (st\<lparr>upper_case := (fst (upper_case st), True)\<rparr>) ext"
  shows "covers rs st (c # ext)"
  using assms
  by (auto simp: covers_def nb_pending_def pending_def)

lemma covers_number:
  assumes "pending (number st)" and "c \<in> set digits"
    and "covers rs (st\<lparr>number := (fst (number st), True)\<rparr>) ext"
  shows "covers rs st (c # ext)"
  using assms
  by (auto simp: covers_def nb_pending_def pending_def)

lemma covers_special:
  assumes "pending (special_character st)" and "c \<in> set (allowed_special_characters rs)"
    and "covers rs (st\<lparr>special_character := (fst (special_character st), True)\<rparr>) ext"
  shows "covers rs st (c # ext)"
  using assms
  by (auto simp: covers_def nb_pending_def pending_def)

lemma nb_pending_lower:
  "pending (lower_case st) \<Longrightarrow>
   nb_pending st = Suc (nb_pending (st\<lparr>lower_case := (fst (lower_case st), True)\<rparr>))"
  by (simp add: nb_pending_def pending_def)

lemma nb_pending_upper:
  "pending (upper_case st) \<Longrightarrow>
   nb_pending st = Suc (nb_pending (st\<lparr>upper_case := (fst (upper_case st), True)\<rparr>))"
  by (simp add: nb_pending_def pending_def)

lemma nb_pending_number:
  "pending (number st) \<Longrightarrow>
   nb_pending st = Suc (nb_pending (st\<lparr>number := (fst (number st), True)\<rparr>))"
  by (simp add: nb_pending_def pending_def)

lemma nb_pending_special:
  "pending (special_character st) \<Longrightarrow>
   nb_pending st =
     Suc (nb_pending (st\<lparr>special_character := (fst (special_character st), True)\<rparr>))"
  by (simp add: nb_pending_def pending_def)

lemma nb_pending_zero:
  "\<not> pending (lower_case st) \<Longrightarrow> \<not> pending (upper_case st) \<Longrightarrow>
   \<not> pending (number st) \<Longrightarrow> \<not> pending (special_character st) \<Longrightarrow> nb_pending st = 0"
  by (simp add: nb_pending_def)

lemma pools_not_empty:
  "ascii_lowercase \<noteq> []" "ascii_uppercase \<noteq> []" "digits \<noteq> []"
  by (simp_all add: ascii_lowercase_def ascii_uppercase_def digits_def)

lemma satisfy_rules_lower:
  "pending (lower_case st) \<Longrightarrow>
   satisfy_rules (Suc n) rs st pw r =
     (case random_choice ascii_lowercase r of
        Inl e \<Rightarrow> Inl e
      | Inr (c, r') \<Rightarrow>
          satisfy_rules n rs (st\<lparr>lower_case := (fst (lower_case st), True)\<rparr>) (pw @ [c]) r')"
  by (auto simp: pending_def)

lemma satisfy_rules_upper:
  "\<not> pending (lower_case st) \<Longrightarrow> pending (upper_case st) \<Longrightarrow>
   satisfy_rules (Suc n) rs st pw r =
     (case random_choice ascii_uppercase r of
        Inl e \<Rightarrow> Inl e
      | Inr (c, r') \<Rightarrow>
          satisfy_rules n rs (st\<lparr>upper_case := (fst (upper_case st), True)\<rparr>) (pw @ [c]) r')"
  by (auto simp: pending_def)

lemma satisfy_rules_number:
  "\<not> pending (lower_case st) \<Longrightarrow> \<not> pending (upper_case st) \<Longrightarrow> pending (number st) \<Longrightarrow>
   satisfy_rules (Suc n) rs st pw r =
     (case random_randint 0 9 r of
        Inl e \<Rightarrow> Inl e
      | Inr (d, r') \<Rightarrow>
          satisfy_rules n rs (st\<lparr>number := (fst (number st), True)\<rparr>) (pw @ str_int d) r')"
  by (auto simp: pending_def)

lemma satisfy_rules_special:
  "\<not> pending (lower_case st) \<Longrightarrow> \<not> pending (upper_case st) \<Longrightarrow> \<not> pending (number st) \<Longrightarrow>
   pending (special_character st) \<Longrightarrow>
   satisfy_rules (Suc n) rs st pw r =
     (case random_choice (allowed_special_characters rs) r of
        Inl e \<Rightarrow> Inl e
      | Inr (c, r') \<Rightarrow>
          satisfy_rules n rs
            (st\<lparr>special_character := (fst (special_character st), True)\<rparr>) (pw @ [c]) r')"
  by (auto simp: pending_def)

lemma satisfy_rules_break:
  "\<not> pending (lower_case st) \<Longrightarrow> \<not> pending (upper_case st) \<Longrightarrow> \<not> pending (number st) \<Longrightarrow>
   \<not> pending (special_character st) \<Longrightarrow>
   satisfy_rules (Suc n) rs st pw r = Inr (pw, st, r)"
  by (auto simp: pending_def)

lemma satisfy_rules_ok:
  assumes "nb_pending st \<le> n"
    and "pending (special_character st) \<Longrightarrow> allowed_special_characters rs \<noteq> []"
  shows "\<exists>ext st' r'. satisfy_rules n rs st pw r = Inr (pw @ ext, st', r') \<and> covers rs st ext"
  using assms
proof (induction n arbitrary: st pw r)
  case 0
  then have "covers rs st []" by (simp add: covers_none)
  then show ?case by simp
next
  case (Suc n)
  show ?case
  proof (cases "pending (lower_case st)")
    case True
    let ?st = "st\<lparr>lower_case := (fst (lower_case st), True)\<rparr>"
    obtain c r1 where c: "random_choice ascii_lowercase r = Inr (c, r1)" "c \<in> set ascii_lowercase"
      using random_choice_ok [OF pools_not_empty(1), of r] by blast
    have "nb_pending ?st \<le> n" using Suc.prems(1) nb_pending_lower [OF True] by simp
    moreover have "pending (special_character ?st) \<Longrightarrow> allowed_special_characters rs \<noteq> []"
      using Suc.prems(2) by simp
    ultimately obtain ext st' r' where
      e: "satisfy_rules n rs ?st (pw @ [c]) r1 = Inr ((pw @ [c]) @ ext, st', r')"
         "covers rs ?st ext"
      using Suc.IH [of ?st "pw @ [c]" r1] by blast
    have "satisfy_rules (Suc n) rs st pw r = Inr (pw @ (c # ext), st', r')"
      using c e by (simp add: satisfy_rules_lower [OF True] del: satisfy_rules.simps)
    moreover have "covers rs st (c # ext)"
      using covers_lower [OF True c(2) e(2)] .
    ultimately show ?thesis by blast
  next
    case nl: False
    show ?thesis
    proof (cases "pending (upper_case st)")
      case True
      let ?st = "st\<lparr>upper_case := (fst (upper_case st), True)\<rparr>"
      obtain c r1 where c: "random_choice ascii_uppercase r = Inr (c, r1)" "c \<in> set ascii_uppercase"
        using random_choice_ok [OF pools_not_empty(2), of r] by blast
      have "nb_pending ?st \<le> n" using Suc.prems(1) nb_pending_upper [OF True] by simp
      moreover have "pending (special_character ?st) \<Longrightarrow> allowed_special_characters rs \<noteq> []"
        using Suc.prems(2) by simp
      ultimately obtain ext st' r' where
        e: "satisfy_rules n rs ?st (pw @ [c]) r1 = Inr ((pw @ [c]) @ ext, st', r')"
           "covers rs ?st ext"
        using Suc.IH [of ?st "pw @ [c]" r1] by blast
      have "satisfy_rules (Suc n) rs st pw r = Inr (pw @ (c # ext), st', r')"
        using c e by (simp add: satisfy_rules_upper [OF nl True] del: satisfy_rules.simps)
      moreover have "covers rs st (c # ext)"
        using covers_upper [OF True c(2) e(2)] .
      ultimately show ?thesis by blast
    next
      case nu: False
      show ?thesis
      proof (cases "pending (number st)")
        case True
        let ?st = "st\<lparr>number := (fst (number st), True)\<rparr>"
        obtain d r1 where d: "random_randint 0 9 r = Inr (d, r1)" "0 \<le> d" "d \<le> 9"
          using random_randint_digit [of r] by blast
        obtain c where c: "str_int d = [c]" "c \<in> set digits"
          using str_int_digit [OF d(2) d(3)] by blast
        have "nb_pending ?st \<le> n" using Suc.prems(1) nb_pending_number [OF True] by simp
        moreover have "pending (special_character ?st) \<Longrightarrow> allowed_special_characters rs \<noteq> []"
          using Suc.prems(2) by simp
        ultimately obtain ext st' r' where
          e: "satisfy_rules n rs ?st (pw @ [c]) r1 = Inr ((pw @ [c]) @ ext, st', r')"
             "covers rs ?st ext"
          using Suc.IH [of ?st "pw @ [c]" r1] by blast
        have "satisfy_rules (Suc n) rs st pw r = Inr (pw @ (c # ext), st', r')"
          using d(1) c(1) e by (simp add: satisfy_rules_number [OF nl nu True] del: satisfy_rules.simps)
        moreover have "covers rs st (c # ext)"
          using covers_number [OF True c(2) e(2)] .
        ultimately show ?thesis by blast
      next
        case nn: False
        show ?thesis
        proof (cases "pending (special_character st)")
          case True
          let ?st = "st\<lparr>special_character := (fst (special_character st), True)\<rparr>"
          obtain c r1 where
            c: "random_choice (allowed_special_characters rs) r = Inr (c, r1)"
               "c \<in> set (allowed_special_characters rs)"
            using random_choice_ok [OF Suc.prems(2) [OF True], of r] by blast
          have "nb_pending ?st \<le> n" using Suc.prems(1) nb_pending_special [OF True] by simp
          moreover have "pending (special_character ?st) \<Longrightarrow> allowed_special_characters rs \<noteq> []"
            by (simp add: pending_def)
          ultimately obtain ext st' r' where
            e: "satisfy_rules n rs ?st (pw @ [c]) r1 = Inr ((pw @ [c]) @ ext, st', r')"
               "covers rs ?st ext"
            using Suc.IH [of ?st "pw @ [c]" r1] by blast
          have "satisfy_rules (Suc n) rs st pw r = Inr (pw @ (c # ext), st', r')"
            using c e by (simp add: satisfy_rules_special [OF nl nu nn True] del: satisfy_rules.simps)
          moreover have "covers rs st (c # ext)"
            using covers_special [OF True c(2) e(2)] .
          ultimately show ?thesis by blast
        next
          case ns: False
          have "satisfy_rules (Suc n) rs st pw r = Inr (pw @ [], st, r)"
            by (simp add: satisfy_rules_break [OF nl nu nn ns] del: satisfy_rules.simps)
          moreover have "covers rs st []"
            using covers_none [OF nb_pending_zero [OF nl nu nn ns]] .
          ultimately show ?thesis by blast
        qed
      qed
    qed
  qed
qed

lemma additional_chars_not_empty:
  assumes "check_rules_consistency rs = (True, [])"
  shows "additional_chars_of rs \<noteq> []"
proof -
  from consistent_facts(1) [OF assms]
  have "is_lower_case_required rs \<or> is_upper_case_required rs \<or> is_number_required rs
          \<or> is_special_character_required rs"
    by (auto simp: get_nb_of_presence_rules_def)
  then show ?thesis
    using consistent_facts(4) [OF assms] pools_not_empty
    by (auto simp: additional_chars_of_def)
qed

lemma random_randrange_ok:
  "0 < n \<Longrightarrow> \<exists>k r'. random_randrange 1 (n + 1) r = Inr (k, r') \<and> 1 \<le> k \<and> k \<le> n"
proof -
  assume n: "0 < n"
  have "r 0 mod nat n < nat n" using n by simp
  then have "int (r 0 mod nat n) < n" using n by linarith
  then show ?thesis using n by (simp add: random_randrange_def)
qed

lemma fill_password_ok:
  assumes "additional_chars_of rs \<noteq> []"
  shows "\<exists>ext r'. fill_password rs pw r = Inr (pw @ ext, r') \<and>
           set ext \<subseteq> set (additional_chars_of rs) \<and>
           int (length (pw @ ext)) + length_of_customized_end rs
             \<le> max (max_number_of_chars rs) (int (length pw) + length_of_customized_end rs)"
proof (cases "0 < max_number_of_chars rs - int (length pw) - length_of_customized_end rs")
  case True
  from random_randrange_ok [OF True, of r] obtain k r1 where
    k: "random_randrange 1 (max_number_of_chars rs - int (length pw)
                              - length_of_customized_end rs + 1) r = Inr (k, r1)"
       "1 \<le> k" "k \<le> max_number_of_chars rs - int (length pw) - length_of_customized_end rs"
    by blast
  from add_random_chars_ok [OF assms, of "nat k" pw r1] obtain ext r' where
    e: "add_random_chars (nat k) (additional_chars_of rs) pw r1 = Inr (pw @ ext, r')"
       "length ext = nat k" "set ext \<subseteq> set (additional_chars_of rs)"
    by blast
  have "fill_password rs pw r = Inr (pw @ ext, r')"
    using True k(1) e(1) by (simp add: fill_password_def Let_def)
  moreover have "int (length (pw @ ext)) + length_of_customized_end rs
                   \<le> max_number_of_chars rs"
    using e(2) k(2) k(3) by simp
  ultimately show ?thesis using e(3) by auto
next
  case False
  then have "fill_password rs pw r = Inr (pw @ [], r)"
    by (simp add: fill_password_def Let_def)
  then show ?thesis by force
qed

lemma top_up_password_ok:
  assumes "additional_chars_of rs \<noteq> []"
  shows "\<exists>ext r'. top_up_password rs pw r = Inr (pw @ ext, r') \<and>
           set ext \<subseteq> set (additional_chars_of rs) \<and>
           min_number_of_chars rs \<le> int (length (pw @ ext)) + length_of_customized_end rs \<and>
           int (length (pw @ ext)) + length_of_customized_end rs
             \<le> max (min_number_of_chars rs) (int (length pw) + length_of_customized_end rs)"
proof (cases "int (length pw) + length_of_customized_end rs < min_number_of_chars rs")
  case True
  let ?k = "nat (min_number_of_chars rs - (int (length pw) + length_of_customized_end rs))"
  from add_random_chars_ok [OF assms, of ?k pw r] obtain ext r' where
    e: "add_random_chars ?k (additional_chars_of rs) pw r = Inr (pw @ ext, r')"
       "length ext = ?k" "set ext \<subseteq> set (additional_chars_of rs)"
    by blast
  have "top_up_password rs pw r = Inr (pw @ ext, r')"
    using True e(1) by (simp add: top_up_password_def)
  moreover have "int (length (pw @ ext)) + length_of_customized_end rs = min_number_of_chars rs"
    using e(2) True by simp
  ultimately show ?thesis using e(3) by auto
next
  case False
  then have "top_up_password rs pw r = Inr (pw @ [], r)"
    by (simp add: top_up_password_def)
  then show ?thesis using False by force
qed

lemma customized_rules_states_eq:
  "customized_rules_states rs =
     (let cs = customized_beginning rs @ customized_end rs;
          customized = (length_of_customized_beginning rs > 0 \<or> length_of_customized_end rs > 0);
          k = get_nb_of_rules_satisfied_by_string rs cs
      in (if customized \<and> k > 0 then
            \<lparr>lower_case = (is_lower_case_required rs,
                            is_lower_case_required rs \<and> is_lower_case_rule_satisfied rs cs),
             upper_case = (is_upper_case_required rs,
                            is_upper_case_required rs \<and> is_upper_case_rule_satisfied rs cs),
             number = (is_number_required rs,
                        is_number_required rs \<and> is_number_rule_satisfied rs cs),
             special_character = (is_special_character_required rs,
                        is_special_character_required rs
                          \<and> is_special_character_rule_satisfied rs cs)\<rparr>
          else initial_rules_states rs,
          if customized then get_nb_of_presence_rules rs - k else get_nb_of_presence_rules rs))"
  by (cases "is_lower_case_required rs"; cases "is_upper_case_required rs";
      cases "is_number_required rs"; cases "is_special_character_required rs")
     (simp_all add: customized_rules_states_def initial_rules_states_def Let_def)

lemma satisfied_by_empty:
  "\<not> is_lower_case_rule_satisfied rs []" "\<not> is_upper_case_rule_satisfied rs []"
  "\<not> is_number_rule_satisfied rs []" "\<not> is_special_character_rule_satisfied rs []"
  by (simp_all add: is_lower_case_rule_satisfied_def is_upper_case_rule_satisfied_def
                    is_number_rule_satisfied_def is_special_character_rule_satisfied_def)

lemma customized_rules_states_pending:
  assumes sync: "lengths_in_sync rs" and eq: "customized_rules_states rs = (st, k)"
  shows "k = int (nb_pending st)"
    and "pending (lower_case st) \<longleftrightarrow> is_lower_case_required rs \<and>
           \<not> is_lower_case_rule_satisfied rs (customized_beginning rs @ customized_end rs)"
    and "pending (upper_case st) \<longleftrightarrow> is_upper_case_required rs \<and>
           \<not> is_upper_case_rule_satisfied rs (customized_beginning rs @ customized_end rs)"
    and "pending (number st) \<longleftrightarrow> is_number_required rs \<and>
           \<not> is_number_rule_satisfied rs (customized_beginning rs @ customized_end rs)"
    and "pending (special_character st) \<longleftrightarrow> is_special_character_required rs \<and>
           \<not> is_special_character_rule_satisfied rs
                (customized_beginning rs @ customized_end rs)"
proof -
  define cs where "cs = customized_beginning rs @ customized_end rs"
  define L where "L = is_lower_case_required rs"
  define U where "U = is_upper_case_required rs"
  define N where "N = is_number_required rs"
  define S where "S = is_special_character_required rs"
  define SL where "SL = is_lower_case_rule_satisfied rs cs"
  define SU where "SU = is_upper_case_rule_satisfied rs cs"
  define SN where "SN = is_number_rule_satisfied rs cs"
  define SS where "SS = is_special_character_rule_satisfied rs cs"
  note defs = L_def U_def N_def S_def SL_def SU_def SN_def SS_def
  have nb: "get_nb_of_presence_rules rs = of_bool L + of_bool U + of_bool N + of_bool S"
    by (simp add: get_nb_of_presence_rules_def defs)
  have sat: "get_nb_of_rules_satisfied_by_string rs cs =
               of_bool (L \<and> SL) + of_bool (U \<and> SU) + of_bool (N \<and> SN) + of_bool (S \<and> SS)"
    by (simp add: get_nb_of_rules_satisfied_by_string_def defs)
  have empty: "\<not> (length_of_customized_beginning rs > 0 \<or> length_of_customized_end rs > 0)
                 \<Longrightarrow> \<not> SL \<and> \<not> SU \<and> \<not> SN \<and> \<not> SS"
    using sync satisfied_by_empty [of rs]
    by (simp add: lengths_in_sync_def defs cs_def)
  have st: "st = (if (length_of_customized_beginning rs > 0 \<or> length_of_customized_end rs > 0)
                     \<and> get_nb_of_rules_satisfied_by_string rs cs > 0
                  then \<lparr>lower_case = (L, L \<and> SL), upper_case = (U, U \<and> SU),
                        number = (N, N \<and> SN), special_character = (S, S \<and> SS)\<rparr>
                  else initial_rules_states rs)"
    and k: "k = (if length_of_customized_beginning rs > 0 \<or> length_of_customized_end rs > 0
                 then get_nb_of_presence_rules rs - get_nb_of_rules_satisfied_by_string rs cs
                 else get_nb_of_presence_rules rs)"
    using eq unfolding customized_rules_states_eq Let_def defs cs_def by simp_all
  have init: "initial_rules_states rs =
                \<lparr>lower_case = (L, False), upper_case = (U, False),
                 number = (N, False), special_character = (S, False)\<rparr>"
    by (simp add: initial_rules_states_def defs)
  have pl: "pending (lower_case st) \<longleftrightarrow> L \<and> \<not> SL"
    using st init sat empty by (auto simp: pending_def split: if_splits)
  have pu: "pending (upper_case st) \<longleftrightarrow> U \<and> \<not> SU"
    using st init sat empty by (auto simp: pending_def split: if_splits)
  have pn: "pending (number st) \<longleftrightarrow> N \<and> \<not> SN"
    using st init sat empty by (auto simp: pending_def split: if_splits)
  have ps: "pending (special_character st) \<longleftrightarrow> S \<and> \<not> SS"
    using st init sat empty by (auto simp: pending_def split: if_splits)
  have "int (nb_pending st) =
          of_bool (L \<and> \<not> SL) + of_bool (U \<and> \<not> SU) + of_bool (N \<and> \<not> SN) + of_bool (S \<and> \<not> SS)"
    by (simp add: nb_pending_def pl pu pn ps)
  also have "\<dots> = k"
    using k nb sat empty by (auto split: if_splits)
  finally show "k = int (nb_pending st)" by simp
  show "pending (lower_case st) \<longleftrightarrow> is_lower_case_required rs \<and>
           \<not> is_lower_case_rule_satisfied rs (customized_beginning rs @ customized_end rs)"
    using pl by (simp add: defs cs_def)
  show "pending (upper_case st) \<longleftrightarrow> is_upper_case_required rs \<and>
           \<not> is_upper_case_rule_satisfied rs (customized_beginning rs @ customized_end rs)"
    using pu by (simp add: defs cs_def)
  show "pending (number st) \<longleftrightarrow> is_number_required rs \<and>
           \<not> is_number_rule_satisfied rs (customized_beginning rs @ customized_end rs)"
    using pn by (simp add: defs cs_def)
  show "pending (special_character st) \<longleftrightarrow> is_special_character_required rs \<and>
           \<not> is_special_character_rule_satisfied rs
                (customized_beginning rs @ customized_end rs)"
    using ps by (simp add: defs cs_def)
qed

lemma generate_shape:
  assumes cons: "check_rules_consistency rs = (True, [])" and sync: "lengths_in_sync rs"
  shows "\<exists>st ext1 ext2 ext3.
           customized_rules_states rs = (st, int (nb_pending st)) \<and>
           generate rs r = Inr (customized_beginning rs @ ext1 @ ext2 @ ext3 @ customized_end rs) \<and>
           covers rs st ext1 \<and>
           set ext2 \<subseteq> set (additional_chars_of rs) \<and>
           set ext3 \<subseteq> set (additional_chars_of rs) \<and>
           min_number_of_chars rs
             \<le> int (length (customized_beginning rs @ ext1 @ ext2 @ ext3 @ customized_end rs)) \<and>
           int (length (customized_beginning rs @ ext1 @ ext2 @ ext3 @ customized_end rs))
             \<le> max (max_number_of_chars rs)
                   (int (length (customized_beginning rs)) + int (nb_pending st)
                      + int (length (customized_end rs)))"
proof -
  let ?b = "customized_beginning rs" and ?e = "customized_end rs"
  obtain st k where crs: "customized_rules_states rs = (st, k)"
    by (cases "customized_rules_states rs")
  note pend = customized_rules_states_pending [OF sync crs]
  have k: "k = int (nb_pending st)" by (rule pend(1))
  have pool: "additional_chars_of rs \<noteq> []" by (rule additional_chars_not_empty [OF cons])
  have spec: "pending (special_character st) \<Longrightarrow> allowed_special_characters rs \<noteq> []"
    using pend(5) consistent_facts(4) [OF cons] by simp
  have le: "length_of_customized_end rs = int (length ?e)"
    using sync by (simp add: lengths_in_sync_def)
  have enough: "nb_pending st \<le> nat k" using k by simp
  from satisfy_rules_ok [OF enough spec, of ?b r] obtain ext1 st' r1 where
    s1: "satisfy_rules (nat k) rs st ?b r = Inr (?b @ ext1, st', r1)" and cov: "covers rs st ext1"
    by blast
  from fill_password_ok [OF pool, of "?b @ ext1" r1] obtain ext2 r2 where
    s2: "fill_password rs (?b @ ext1) r1 = Inr ((?b @ ext1) @ ext2, r2)"
    and p2: "set ext2 \<subseteq> set (additional_chars_of rs)"
    and l2: "int (length ((?b @ ext1) @ ext2)) + length_of_customized_end rs
               \<le> max (max_number_of_chars rs)
                     (int (length (?b @ ext1)) + length_of_customized_end rs)"
    by blast
  from top_up_password_ok [OF pool, of "(?b @ ext1) @ ext2" r2] obtain ext3 r3 where
    s3: "top_up_password rs ((?b @ ext1) @ ext2) r2 = Inr (((?b @ ext1) @ ext2) @ ext3, r3)"
    and p3: "set ext3 \<subseteq> set (additional_chars_of rs)"
    and l3: "min_number_of_chars rs
               \<le> int (length (((?b @ ext1) @ ext2) @ ext3)) + length_of_customized_end rs"
    and u3: "int (length (((?b @ ext1) @ ext2) @ ext3)) + length_of_customized_end rs
               \<le> max (min_number_of_chars rs)
                     (int (length ((?b @ ext1) @ ext2)) + length_of_customized_end rs)"
    by blast
  have gen: "generate rs r = Inr (?b @ ext1 @ ext2 @ ext3 @ ?e)"
    using cons crs s1 s2 s3 le by (simp add: generate_def)
  have len1: "length ext1 = nb_pending st" using cov by (simp add: covers_def)
  have lower: "min_number_of_chars rs \<le> int (length (?b @ ext1 @ ext2 @ ext3 @ ?e))"
    using l3 le by simp
  have upper: "int (length (?b @ ext1 @ ext2 @ ext3 @ ?e))
                 \<le> max (max_number_of_chars rs)
                       (int (length ?b) + int (nb_pending st) + int (length ?e))"
    using u3 l2 le len1 consistent_facts(3) [OF cons] by simp
  show ?thesis
    using crs k gen cov p2 p3 lower upper by blast
qed

lemma ascii_lowercase_class:
  "c \<in> set ascii_lowercase \<Longrightarrow> isalpha c \<and> \<not> isupper c \<and> \<not> isdigit c"
  by (auto simp: ascii_lowercase_def isalpha_def isupper_def isdigit_def ord_def)

lemma ascii_uppercase_class:
  "c \<in> set ascii_uppercase \<Longrightarrow> isalpha c \<and> \<not> islower c \<and> \<not> isdigit c"
  by (auto simp: ascii_uppercase_def isalpha_def islower_def isdigit_def ord_def)

lemma digits_class:
  "c \<in> set digits \<Longrightarrow> \<not> isalpha c \<and> \<not> islower c \<and> \<not> isupper c"
  by (auto simp: digits_def isalpha_def islower_def isupper_def ord_def)

lemma additional_chars_cases:
  assumes "c \<in> set (additional_chars_of rs)"
  shows "(is_lower_case_required rs \<and> c \<in> set ascii_lowercase) \<or>
         (is_upper_case_required rs \<and> c \<in> set ascii_uppercase) \<or>
         (is_number_required rs \<and> c \<in> set digits) \<or>
         (is_special_character_required rs \<and> c \<in> set (allowed_special_characters rs))"
  using assms by (auto simp: additional_chars_of_def split: if_splits)

lemma pool_char_consistent:
  assumes sp: "special_characters_within_rules rs"
    and c: "c \<in> set (additional_chars_of rs)"
  shows "(islower c \<longrightarrow> is_lower_case_required rs) \<and>
         (isupper c \<longrightarrow> is_upper_case_required rs) \<and>
         (isdigit c \<longrightarrow> is_number_required rs) \<and>
         (\<not> isdigit c \<and> \<not> isalpha c \<longrightarrow>
            is_special_character_required rs \<and> c \<in> set (allowed_special_characters rs))"
proof -
  from sp have within: "\<And>x. is_special_character_required rs \<Longrightarrow>
                          x \<in> set (allowed_special_characters rs) \<Longrightarrow>
                          (islower x \<longrightarrow> is_lower_case_required rs) \<and>
                          (isupper x \<longrightarrow> is_upper_case_required rs) \<and>
                          (isdigit x \<longrightarrow> is_number_required rs)"
    by (simp add: special_characters_within_rules_def list_all_iff)
  from additional_chars_cases [OF c] show ?thesis
  proof (elim disjE conjE)
    assume "is_lower_case_required rs" "c \<in> set ascii_lowercase"
    then show ?thesis using ascii_lowercase_class [of c] by simp
  next
    assume "is_upper_case_required rs" "c \<in> set ascii_uppercase"
    then show ?thesis using ascii_uppercase_class [of c] by simp
  next
    assume "is_number_required rs" "c \<in> set digits"
    then show ?thesis using digits_class [of c] digits_isdigit [of c] by simp
  next
    assume "is_special_character_required rs" "c \<in> set (allowed_special_characters rs)"
    then show ?thesis
      using within [of c] by simp
  qed
qed

lemma pool_string_consistent:
  assumes sp: "special_characters_within_rules rs"
    and g: "set g \<subseteq> set (additional_chars_of rs)"
  shows "check_string_consistency rs g"
proof -
  have each: "\<And>c. c \<in> set g \<Longrightarrow>
                (islower c \<longrightarrow> is_lower_case_required rs) \<and>
                (isupper c \<longrightarrow> is_upper_case_required rs) \<and>
                (isdigit c \<longrightarrow> is_number_required rs) \<and>
                (\<not> isdigit c \<and> \<not> isalpha c \<longrightarrow>
                   is_special_character_required rs \<and> c \<in> set (allowed_special_characters rs))"
    using pool_char_consistent [OF sp] g by blast
  show ?thesis
    unfolding check_string_consistency_def list_ex_iff
    using each by auto
qed

lemma covers_in_pool:
  assumes cov: "covers rs st ext"
    and pl: "pending (lower_case st) \<Longrightarrow> is_lower_case_required rs"
    and pu: "pending (upper_case st) \<Longrightarrow> is_upper_case_required rs"
    and pn: "pending (number st) \<Longrightarrow> is_number_required rs"
    and ps: "pending (special_character st) \<Longrightarrow> is_special_character_required rs"
  shows "set ext \<subseteq> set (additional_chars_of rs)"
proof
  fix c assume "c \<in> set ext"
  with cov have
    "(pending (lower_case st) \<and> c \<in> set ascii_lowercase) \<or>
     (pending (upper_case st) \<and> c \<in> set ascii_uppercase) \<or>
     (pending (number st) \<and> c \<in> set digits) \<or>
     (pending (special_character st) \<and> c \<in> set (allowed_special_characters rs))"
    by (auto simp: covers_def split: if_splits)
  then show "c \<in> set (additional_chars_of rs)"
    using pl pu pn ps by (auto simp: additional_chars_of_def)
qed

text \<open>
  Claim C3, as stated, fails in two ways. The classes of the code are those of
  \<open>str.islower\<close>, \<open>str.isupper\<close> and \<open>str.isdigit\<close>, not the alphabets a-z, A-Z and 0-9:
  with lower case alone required, minimum and maximum 1 and the customized beginning
  e acute (code point 233), the rule set is consistent and the password is the beginning
  alone, which holds no letter of a-z. And an allowed special character may be a
  letter: with the special character rule alone and \<open>A\<close> the only allowed special
  character, the rule set is consistent and the generated password is \<open>A\<close>, an upper
  case letter, though upper case is not required; the consistency test of the rules
  rejects it.
\<close>

theorem generated_classes_counterexample:
  "check_rules_consistency accented_beginning_rules = (True, []) \<and>
   lengths_in_sync accented_beginning_rules \<and>
   is_lower_case_required accented_beginning_rules \<and>
   generate accented_beginning_rules (\<lambda>_. 0) = Inr [CHR 0xE9] \<and>
   \<not> list_ex (\<lambda>c. c \<in> set ascii_lowercase) [CHR 0xE9] \<and>
   is_lower_case_rule_satisfied accented_beginning_rules [CHR 0xE9] \<and>
   check_rules_consistency letter_as_special_rules = (True, []) \<and>
   lengths_in_sync letter_as_special_rules \<and>
   customized_beginning letter_as_special_rules = [] \<and>
   customized_end letter_as_special_rules = [] \<and>
   generate letter_as_special_rules (\<lambda>_. 0) = Inr ''A'' \<and>
   \<not> is_upper_case_required letter_as_special_rules \<and>
   isupper CHR ''A'' \<and>
   \<not> check_string_consistency letter_as_special_rules ''A''"
  by code_simp

text \<open>
  Claim C3, amended. For every consistent rule set whose cached lengths are in sync and
  every randomness source, \<open>generate\<close> returns a password made of the customized
  beginning, a generated part and the customized end, where

  \<^item> every character of the generated part belongs to the pool \<open>additional_chars\<close>, the
    union of the alphabets of the required rules (a-z, A-Z, 0-9, the allowed special
    characters);

  \<^item> every required rule either is satisfied by the customized strings, as the tests
    of the code read them (\<open>str.islower\<close>, \<open>str.isupper\<close>, \<open>str.isdigit\<close>, membership in
    the allowed special characters), or has a character of its alphabet in the
    generated part; so the password satisfies every required rule by these tests;

  \<^item> when the allowed special characters stay within the rules, the generated part
    passes the consistency test of the rules: it holds no character of a rule that is
    not required.
\<close>

theorem generated_password_covers_rules:
  assumes cons: "check_rules_consistency rs = (True, [])" and sync: "lengths_in_sync rs"
  shows "\<exists>generated.
           generate rs r = Inr (customized_beginning rs @ generated @ customized_end rs) \<and>
           list_all (\<lambda>c. c \<in> set (additional_chars_of rs)) generated \<and>
           (is_lower_case_required rs \<longrightarrow>
              is_lower_case_rule_satisfied rs (customized_beginning rs @ customized_end rs) \<or>
              list_ex (\<lambda>c. c \<in> set ascii_lowercase) generated) \<and>
           (is_upper_case_required rs \<longrightarrow>
              is_upper_case_rule_satisfied rs (customized_beginning rs @ customized_end rs) \<or>
              list_ex (\<lambda>c. c \<in> set ascii_uppercase) generated) \<and>
           (is_number_required rs \<longrightarrow>
              is_number_rule_satisfied rs (customized_beginning rs @ customized_end rs) \<or>
              list_ex (\<lambda>c. c \<in> set digits) generated) \<and>
           (is_special_character_required rs \<longrightarrow>
              is_special_character_rule_satisfied rs
                (customized_beginning rs @ customized_end rs) \<or>
              list_ex (\<lambda>c. c \<in> set (allowed_special_characters rs)) generated) \<and>
           (is_lower_case_required rs \<longrightarrow>
              is_lower_case_rule_satisfied rs
                (customized_beginning rs @ generated @ customized_end rs)) \<and>
           (is_upper_case_required rs \<longrightarrow>
              is_upper_case_rule_satisfied rs
                (customized_beginning rs @ generated @ customized_end rs)) \<and>
           (is_number_required rs \<longrightarrow>
              is_number_rule_satisfied rs
                (customized_beginning rs @ generated @ customized_end rs)) \<and>
           (is_special_character_required rs \<longrightarrow>
              is_special_character_rule_satisfied rs
                (customized_beginning rs @ generated @ customized_end rs)) \<and>
           (special_characters_within_rules rs \<longrightarrow> check_string_consistency rs generated)"
proof -
  let ?b = "customized_beginning rs" and ?e = "customized_end rs"
  from generate_shape [OF cons sync, of r] obtain st ext1 ext2 ext3 where
    crs: "customized_rules_states rs = (st, int (nb_pending st))"
    and gen: "generate rs r = Inr (?b @ ext1 @ ext2 @ ext3 @ ?e)"
    and cov: "covers rs st ext1"
    and p2: "set ext2 \<subseteq> set (additional_chars_of rs)"
    and p3: "set ext3 \<subseteq> set (additional_chars_of rs)"
    by blast
  note pend = customized_rules_states_pending [OF sync crs]
  let ?g = "ext1 @ ext2 @ ext3"
  have p1: "set ext1 \<subseteq> set (additional_chars_of rs)"
    using covers_in_pool [OF cov] pend(2-5) by blast
  have pool: "set ?g \<subseteq> set (additional_chars_of rs)"
    using p1 p2 p3 by simp
  have g1: "generate rs r = Inr (?b @ ?g @ ?e)" using gen by simp
  have g2: "list_all (\<lambda>c. c \<in> set (additional_chars_of rs)) ?g"
    using pool by (auto simp: list_all_iff)
  have lower: "is_lower_case_required rs \<longrightarrow>
                 is_lower_case_rule_satisfied rs (?b @ ?e) \<or>
                 list_ex (\<lambda>c. c \<in> set ascii_lowercase) ?g"
  proof
    assume req: "is_lower_case_required rs"
    show "is_lower_case_rule_satisfied rs (?b @ ?e) \<or>
          list_ex (\<lambda>c. c \<in> set ascii_lowercase) ?g"
    proof (cases "pending (lower_case st)")
      case True
      with cov have "list_ex (\<lambda>c. c \<in> set ascii_lowercase) ext1" by (simp add: covers_def)
      then show ?thesis by (auto simp: list_ex_iff)
    next
      case False
      with pend(2) req show ?thesis by simp
    qed
  qed
  have upper: "is_upper_case_required rs \<longrightarrow>
                 is_upper_case_rule_satisfied rs (?b @ ?e) \<or>
                 list_ex (\<lambda>c. c \<in> set ascii_uppercase) ?g"
  proof
    assume req: "is_upper_case_required rs"
    show "is_upper_case_rule_satisfied rs (?b @ ?e) \<or>
          list_ex (\<lambda>c. c \<in> set ascii_uppercase) ?g"
    proof (cases "pending (upper_case st)")
      case True
      with cov have "list_ex (\<lambda>c. c \<in> set ascii_uppercase) ext1" by (simp add: covers_def)
      then show ?thesis by (auto simp: list_ex_iff)
    next
      case False
      with pend(3) req show ?thesis by simp
    qed
  qed
  have num: "is_number_required rs \<longrightarrow>
               is_number_rule_satisfied rs (?b @ ?e) \<or>
               list_ex (\<lambda>c. c \<in> set digits) ?g"
  proof
    assume req: "is_number_required rs"
    show "is_number_rule_satisfied rs (?b @ ?e) \<or> list_ex (\<lambda>c. c \<in> set digits) ?g"
    proof (cases "pending (number st)")
      case True
      with cov have "list_ex (\<lambda>c. c \<in> set digits) ext1" by (simp add: covers_def)
      then show ?thesis by (auto simp: list_ex_iff)
    next
      case False
      with pend(4) req show ?thesis by simp
    qed
  qed
  have special: "is_special_character_required rs \<longrightarrow>
                   is_special_character_rule_satisfied rs (?b @ ?e) \<or>
                   list_ex (\<lambda>c. c \<in> set (allowed_special_characters rs)) ?g"
  proof
    assume req: "is_special_character_required rs"
    show "is_special_character_rule_satisfied rs (?b @ ?e) \<or>
          list_ex (\<lambda>c. c \<in> set (allowed_special_characters rs)) ?g"
    proof (cases "pending (special_character st)")
      case True
      with cov have "list_ex (\<lambda>c. c \<in> set (allowed_special_characters rs)) ext1"
        by (simp add: covers_def)
      then show ?thesis by (auto simp: list_ex_iff)
    next
      case False
      with pend(5) req show ?thesis by simp
    qed
  qed
  have lower_pw: "is_lower_case_required rs \<longrightarrow> is_lower_case_rule_satisfied rs (?b @ ?g @ ?e)"
    using lower ascii_lowercase_islower
    by (auto simp: is_lower_case_rule_satisfied_def list_ex_iff)
  have upper_pw: "is_upper_case_required rs \<longrightarrow> is_upper_case_rule_satisfied rs (?b @ ?g @ ?e)"
    using upper ascii_uppercase_isupper
    by (auto simp: is_upper_case_rule_satisfied_def list_ex_iff)
  have num_pw: "is_number_required rs \<longrightarrow> is_number_rule_satisfied rs (?b @ ?g @ ?e)"
    using num digits_isdigit
    by (auto simp: is_number_rule_satisfied_def list_ex_iff)
  have special_pw: "is_special_character_required rs \<longrightarrow>
                      is_special_character_rule_satisfied rs (?b @ ?g @ ?e)"
    using special
    by (auto simp: is_special_character_rule_satisfied_def list_ex_iff)
  have consistent:
    "special_characters_within_rules rs \<longrightarrow> check_string_consistency rs ?g"
    using pool_string_consistent [OF _ pool] by blast
  from g1 g2 lower upper num special lower_pw upper_pw num_pw special_pw consistent
  show ?thesis by blast
qed

text \<open>
  The theorem of claim C3 at a rule set with lower case, number and special character
  required, the beginning \<open>a\<close>, the end \<open>#\<close> and the allowed special characters \<open>#!\<close>: only
  the number rule is left to the generated part.
\<close>

theorem generated_password_covers_rules_witness:
  "check_rules_consistency mixed_rules = (True, []) \<and>
   lengths_in_sync mixed_rules \<and>
   special_characters_within_rules mixed_rules \<and>
   generate mixed_rules (\<lambda>i. 7 * i + 3) = Inr ''a3ry5#'' \<and>
   (\<exists>generated.
      generate mixed_rules (\<lambda>i. 7 * i + 3)
        = Inr (customized_beginning mixed_rules @ generated @ customized_end mixed_rules) \<and>
      list_all (\<lambda>c. c \<in> set (additional_chars_of mixed_rules)) generated \<and>
      list_ex (\<lambda>c. c \<in> set digits) generated \<and>
      is_lower_case_rule_satisfied mixed_rules
        (customized_beginning mixed_rules @ generated @ customized_end mixed_rules) \<and>
      is_number_rule_satisfied mixed_rules
        (customized_beginning mixed_rules @ generated @ customized_end mixed_rules) \<and>
      is_special_character_rule_satisfied mixed_rules
        (customized_beginning mixed_rules @ generated @ customized_end mixed_rules) \<and>
      check_string_consistency mixed_rules generated)"
proof -
  have h1: "check_rules_consistency mixed_rules = (True, [])" by code_simp
  have h2: "lengths_in_sync mixed_rules" by code_simp
  have h3: "special_characters_within_rules mixed_rules" by code_simp
  have h4: "is_lower_case_required mixed_rules" by code_simp
  have h5: "is_number_required mixed_rules" by code_simp
  have h6: "is_special_character_required mixed_rules" by code_simp
  have h7: "generate mixed_rules (\<lambda>i. 7 * i + 3) = Inr ''a3ry5#''" by code_simp
  have h8: "\<not> is_number_rule_satisfied mixed_rules
                (customized_beginning mixed_rules @ customized_end mixed_rules)" by code_simp
  have "\<exists>generated.
      generate mixed_rules (\<lambda>i. 7 * i + 3)
        = Inr (customized_beginning mixed_rules @ generated @ customized_end mixed_rules) \<and>
      list_all (\<lambda>c. c \<in> set (additional_chars_of mixed_rules)) generated \<and>
      list_ex (\<lambda>c. c \<in> set digits) generated \<and>
      is_lower_case_rule_satisfied mixed_rules
        (customized_beginning mixed_rules @ generated @ customized_end mixed_rules) \<and>
      is_number_rule_satisfied mixed_rules
        (customized_beginning mixed_rules @ generated @ customized_end mixed_rules) \<and>
      is_special_character_rule_satisfied mixed_rules
        (customized_beginning mixed_rules @ generated @ customized_end mixed_rules) \<and>
      check_string_consistency mixed_rules generated"
    using generated_password_covers_rules [OF h1 h2, of "\<lambda>i. 7 * i + 3"] h3 h4 h5 h6 h8
    by auto
  with h1 h2 h3 h7 show ?thesis by blast
qed

lemma customized_rules_states_count:
  assumes sync: "lengths_in_sync rs"
  shows "snd (customized_rules_states rs) =
           get_nb_of_presence_rules rs
             - get_nb_of_rules_satisfied_by_string rs
                 (customized_beginning rs @ customized_end rs)"
proof (cases "length_of_customized_beginning rs > 0 \<or> length_of_customized_end rs > 0")
  case True
  then show ?thesis by (simp add: customized_rules_states_eq Let_def)
next
  case False
  with sync have "customized_beginning rs @ customized_end rs = []"
    by (simp add: lengths_in_sync_def)
  then have "get_nb_of_rules_satisfied_by_string rs
               (customized_beginning rs @ customized_end rs) = 0"
    using satisfied_by_empty [of rs] by (simp add: get_nb_of_rules_satisfied_by_string_def)
  with False show ?thesis by (simp add: customized_rules_states_eq Let_def)
qed

text \<open>
  The length of the password: never below the minimum, and within the maximum whenever
  the customized strings and the rules they leave pending fit into it.
\<close>

lemma generate_length:
  assumes cons: "check_rules_consistency rs = (True, [])" and sync: "lengths_in_sync rs"
  shows "\<exists>pw. generate rs r = Inr pw \<and> min_number_of_chars rs \<le> int (length pw) \<and>
           (int (length (customized_beginning rs))
              + (get_nb_of_presence_rules rs
                   - get_nb_of_rules_satisfied_by_string rs
                       (customized_beginning rs @ customized_end rs))
              + int (length (customized_end rs)) \<le> max_number_of_chars rs
            \<longrightarrow> int (length pw) \<le> max_number_of_chars rs)"
proof -
  from generate_shape [OF cons sync, of r] obtain st ext1 ext2 ext3 where
    crs: "customized_rules_states rs = (st, int (nb_pending st))"
    and gen: "generate rs r
                = Inr (customized_beginning rs @ ext1 @ ext2 @ ext3 @ customized_end rs)"
    and lo: "min_number_of_chars rs
               \<le> int (length (customized_beginning rs @ ext1 @ ext2 @ ext3 @ customized_end rs))"
    and up: "int (length (customized_beginning rs @ ext1 @ ext2 @ ext3 @ customized_end rs))
               \<le> max (max_number_of_chars rs)
                     (int (length (customized_beginning rs)) + int (nb_pending st)
                        + int (length (customized_end rs)))"
    by blast
  have "int (nb_pending st) = get_nb_of_presence_rules rs
          - get_nb_of_rules_satisfied_by_string rs (customized_beginning rs @ customized_end rs)"
    using customized_rules_states_count [OF sync] crs by simp
  with gen lo up show ?thesis by auto
qed

text \<open>
  Claim C1 at the rule set with minimum 2, maximum 2, lower and upper case required and
  the customized beginning \<open>aa\<close>: validation accepts it, because the room check is made
  only when the rules are more than the minimum, and for every randomness source the
  password has three characters, the beginning and one upper case letter.
\<close>

theorem generate_exceeds_max:
  "check_rules_consistency tight_rules = (True, []) \<and>
   lengths_in_sync tight_rules \<and>
   max_number_of_chars tight_rules = 2 \<and>
   generate tight_rules r = Inr (''aa'' @ [ascii_uppercase ! (r 0 mod 26)]) \<and>
   generate tight_rules (\<lambda>_. 0) = Inr ''aaA''"
  by code_simp

text \<open>
  Where the room check is made. For a rule set that passes the checks made before (a
  presence rule selected, customized strings within the maximum and consistent with
  the rules, minimum not above maximum) and has more presence rules than the minimum:
  without customized strings validation fails with the reason of the minimum; with
  customized strings, when the unsatisfied rules exceed the room, it fails with the
  reason of the maximum and the customized strings; otherwise the last check decides.
\<close>

lemma room_check_when_rules_exceed_min:
  assumes sync: "lengths_in_sync rs"
    and rules: "get_nb_of_presence_rules rs \<noteq> 0"
    and fits: "length_of_customized_beginning rs + length_of_customized_end rs
                 \<le> max_number_of_chars rs"
    and first_ok: "customized_beginning rs = [] \<or> check_string_consistency rs (customized_beginning rs)"
    and last_ok: "customized_end rs = [] \<or> check_string_consistency rs (customized_end rs)"
    and bounds: "min_number_of_chars rs \<le> max_number_of_chars rs"
    and more_rules: "get_nb_of_presence_rules rs > min_number_of_chars rs"
  shows "(if customized_beginning rs = [] \<and> customized_end rs = [] then
            check_rules_consistency rs = (False, reason_presence_min)
          else if unsatisfied_rules_exceed_room rs then
            check_rules_consistency rs = (False, reason_presence_max)
          else check_rules_consistency rs = check_special_character_rule rs)"
proof -
  have lb: "length_of_customized_beginning rs = int (length (customized_beginning rs))"
    and le: "length_of_customized_end rs = int (length (customized_end rs))"
    using sync by (simp_all add: lengths_in_sync_def)
  have c1: "(get_nb_of_presence_rules rs = 0) = False"
    using rules by simp
  have c2: "(length_of_customized_beginning rs + length_of_customized_end rs
               > max_number_of_chars rs) = False"
    using fits by simp
  have c3: "(length_of_customized_beginning rs > 0
               \<and> \<not> check_string_consistency rs (customized_beginning rs)) = False"
    using first_ok lb by auto
  have c4: "(length_of_customized_end rs > 0
               \<and> \<not> check_string_consistency rs (customized_end rs)) = False"
    using last_ok le by auto
  have c5: "(min_number_of_chars rs > max_number_of_chars rs) = False"
    using bounds by simp
  have c6: "(get_nb_of_presence_rules rs > min_number_of_chars rs) = True"
    using more_rules by simp
  have eq: "check_rules_consistency rs =
              (if customized_beginning rs = [] \<and> customized_end rs = [] then
                 (False, reason_presence_min)
               else
                 (let nb_of_satisfied_rules =
                        get_nb_of_rules_satisfied_by_string rs
                          (customized_beginning rs @ customized_end rs)
                  in if nb_of_satisfied_rules < get_nb_of_presence_rules rs then
                       (if max_number_of_chars rs
                             - int (length (customized_beginning rs @ customized_end rs))
                           < get_nb_of_presence_rules rs - nb_of_satisfied_rules then
                          (False, reason_presence_max)
                        else check_special_character_rule rs)
                     else check_special_character_rule rs))"
    unfolding check_rules_consistency_def Let_def c1 c2 c3 c4 c5 c6
    by (simp only: if_False if_True)
  show ?thesis
    using fits lb le
    by (auto simp: eq Let_def unsatisfied_rules_exceed_room_def)
qed

text \<open>
  Claim C2 at the rule set with minimum 2, maximum 2, lower and upper case required and
  the customized beginning \<open>aa\<close>. The rule set passes every check made before the room
  check; the beginning satisfies lower case only, so one required rule is unsatisfied,
  and the maximum leaves no character beside the beginning: the unsatisfied rules
  exceed the room. Validation nevertheless returns \<open>(True, "")\<close>: the room check is
  nested under the test that the presence rules are more than the minimum, and here
  they are not (2 rules, minimum 2).
\<close>

theorem room_check_skipped:
  "lengths_in_sync tight_rules \<and>
   get_nb_of_presence_rules tight_rules = 2 \<and>
   customized_beginning tight_rules = ''aa'' \<and>
   customized_end tight_rules = [] \<and>
   length_of_customized_beginning tight_rules + length_of_customized_end tight_rules
     \<le> max_number_of_chars tight_rules \<and>
   check_string_consistency tight_rules (customized_beginning tight_rules) \<and>
   min_number_of_chars tight_rules \<le> max_number_of_chars tight_rules \<and>
   get_nb_of_rules_satisfied_by_string tight_rules
     (customized_beginning tight_rules @ customized_end tight_rules) = 1 \<and>
   max_number_of_chars tight_rules - length_of_customized_beginning tight_rules
     - length_of_customized_end tight_rules = 0 \<and>
   unsatisfied_rules_exceed_room tight_rules \<and>
   \<not> get_nb_of_presence_rules tight_rules > min_number_of_chars tight_rules \<and>
   check_rules_consistency tight_rules = (True, [])"
  by code_simp

section \<open>Properties of the checker\<close>

text \<open>
  Claim C9. For the empty password \<open>check\<close> returns at once: its result is the ordinary
  return value \<open>Empty password provided. No reason to check it !\<close>, not an exception, and
  no request is made.
\<close>

theorem empty_password_short_circuits:
  "check sha1_hexdigest remote (pc\<lparr>password := []\<rparr>) =
     (Inr ''Empty password provided. No reason to check it !'', [])"
  by (simp add: check_def)

lemma snd_request_api_data: "snd (request_api_data remote url) = [url]"
  by (simp add: request_api_data_def split: sum.splits)

lemma snd_pwned_api_check:
  "snd (pwned_api_check sha1_hexdigest remote pwd) =
     [range_url @ take 5 (str_upper (sha1_hexdigest pwd))]"
proof -
  obtain res requested where
    eq: "request_api_data remote (range_url @ take 5 (str_upper (sha1_hexdigest pwd)))
           = (res, requested)"
    by (cases "request_api_data remote (range_url @ take 5 (str_upper (sha1_hexdigest pwd)))")
  with snd_request_api_data [of remote "range_url @ take 5 (str_upper (sha1_hexdigest pwd))"]
  have req: "requested = [range_url @ take 5 (str_upper (sha1_hexdigest pwd))]"
    by simp
  show ?thesis
    using eq req
    by (simp add: pwned_api_check_def Let_def split: sum.splits error.splits)
qed

lemma snd_check:
  "password pc \<noteq> [] \<Longrightarrow>
   snd (check sha1_hexdigest remote pc) =
     [range_url @ take 5 (str_upper (sha1_hexdigest (password pc)))]"
  using snd_pwned_api_check [of sha1_hexdigest remote "password pc"]
  by (cases "pwned_api_check sha1_hexdigest remote (password pc)")
     (simp add: check_def Let_def split: sum.splits)

text \<open>
  Claim C6. For a non-empty password, whatever the digest function, the remote service
  and its answer, \<open>check\<close> makes exactly one request, to the range URL followed by the
  first five characters of the upper case digest. The request is a function of these
  five characters alone: two checkers whose passwords have digests with the same first
  five characters make the same request, so neither the rest of the digest nor the
  password reaches it.
\<close>

theorem request_keyed_by_hash_prefix_only:
  assumes "password pc \<noteq> []" and "password pc' \<noteq> []"
    and "take 5 (str_upper (sha1_hexdigest (password pc)))
           = take 5 (str_upper (sha1_hexdigest (password pc')))"
  shows "snd (check sha1_hexdigest remote pc)
           = [range_url @ take 5 (str_upper (sha1_hexdigest (password pc)))]
         \<and> snd (check sha1_hexdigest remote pc') = snd (check sha1_hexdigest remote pc)"
  using assms by (simp add: snd_check)

theorem request_keyed_by_hash_prefix_only_witness:
  "password hidden_checker \<noteq> [] \<and> password shown_checker \<noteq> [] \<and>
   password hidden_checker \<noteq> password shown_checker \<and>
   drop 5 (str_upper (table_digest (password hidden_checker)))
     \<noteq> drop 5 (str_upper (table_digest (password shown_checker))) \<and>
   snd (check table_digest (remote_ok canned_body) hidden_checker)
     = [''https://api.pwnedpasswords.com/range/5BAA6''] \<and>
   snd (check table_digest (remote_ok canned_body) shown_checker)
     = snd (check table_digest (remote_ok canned_body) hidden_checker)"
proof -
  have h1: "password hidden_checker \<noteq> []" by code_simp
  have h2: "password shown_checker \<noteq> []" by code_simp
  have h3: "take 5 (str_upper (table_digest (password hidden_checker)))
              = take 5 (str_upper (table_digest (password shown_checker)))" by code_simp
  have h4: "password hidden_checker \<noteq> password shown_checker" by code_simp
  have h5: "drop 5 (str_upper (table_digest (password hidden_checker)))
              \<noteq> drop 5 (str_upper (table_digest (password shown_checker)))" by code_simp
  have h6: "range_url @ take 5 (str_upper (table_digest (password hidden_checker)))
              = ''https://api.pwnedpasswords.com/range/5BAA6''" by code_simp
  from request_keyed_by_hash_prefix_only [OF h1 h2 h3, of "remote_ok canned_body"]
    h1 h2 h4 h5 h6
  show ?thesis by simp
qed

text \<open>
  Claim C7 at a status of 500. One request is made and none follows, but \<open>check\<close> does
  not fail: \<open>__pwned_api_check\<close> catches the \<open>RuntimeError\<close> and returns the failure text
  in the place of the count, and \<open>check\<close>, finding it non-empty, reports the password as
  exposed, with that text where the number of times should be.
\<close>

theorem network_failure_reported_as_exposure:
  "check table_digest (remote_status 500) hidden_checker =
     (Inr ''This password has already been exposed in data breaches (Failed to get the information (Error fetching : response status code = 500, check the API and try again) times) : you should probably change it !!'',
      [''https://api.pwnedpasswords.com/range/5BAA6''])"
  by code_simp

text \<open>
  Claim C8, as stated, fails: the comparison is the equality of the two strings. A
  body whose only record has the hash tail in lower case and the count 3533661 gives 0
  for the upper case hash tail, though the two tails are equal when case is ignored.
\<close>

theorem leaks_count_counterexample:
  "response_records lower_case_body
     = [[''1e4c9b93f3f0682250b6cf8331b7ee68fd8'', ''3533661'']] \<and>
   str_upper ''1e4c9b93f3f0682250b6cf8331b7ee68fd8'' = canned_tail \<and>
   get_pwd_leaks_count \<lparr>status_code = 200, response_text = lower_case_body\<rparr> canned_tail
     = Inr (PyInt 0)"
  by code_simp

lemma leaks_count_loop_find:
  "list_all (\<lambda>parts. length parts = 2) hashes \<Longrightarrow>
   leaks_count_loop hashes t =
     (case find (\<lambda>parts. hd parts = t) hashes of
        None \<Rightarrow> Inr (PyInt 0)
      | Some parts \<Rightarrow> Inr (PyStr (parts ! 1)))"
proof (induction hashes)
  case Nil
  then show ?case by simp
next
  case (Cons parts hashes)
  from Cons.prems obtain a b where "parts = [a, b]"
    by (cases parts; cases "tl parts"; cases "tl (tl parts)") auto
  with Cons show ?case by simp
qed

text \<open>
  Claim C8, amended. When every line of the body has exactly two fields, the lookup
  returns the count of the first record whose tail is equal to the hash tail, character
  for character and so with the same case, and 0 when no record has that tail. The
  count is the one the record holds: formatted as \<open>check\<close> formats it into its message,
  the result is the count field of the record.
\<close>

theorem leaks_count_of_first_equal_tail:
  assumes "list_all (\<lambda>parts. length parts = 2) (response_records (response_text hashes))"
  shows "case find (\<lambda>parts. hd parts = hashed_pwd_tail)
                (response_records (response_text hashes)) of
           None \<Rightarrow> get_pwd_leaks_count hashes hashed_pwd_tail = Inr (PyInt 0)
         | Some parts \<Rightarrow>
             (\<exists>count. get_pwd_leaks_count hashes hashed_pwd_tail = Inr count \<and>
                      format_value count = parts ! 1)"
  using assms
  by (simp add: get_pwd_leaks_count_def response_records_def leaks_count_loop_find
           split: option.splits)

theorem leaks_count_of_first_equal_tail_witness:
  "list_all (\<lambda>parts. length parts = 2) (response_records canned_body) \<and>
   find (\<lambda>parts. hd parts = canned_tail) (response_records canned_body)
     = Some [canned_tail, ''3533661''] \<and>
   (\<exists>count. get_pwd_leaks_count \<lparr>status_code = 200, response_text = canned_body\<rparr> canned_tail
               = Inr count \<and>
            format_value count = ''3533661'') \<and>
   find (\<lambda>parts. hd parts = str_upper ''0123abc'') (response_records canned_body) = None \<and>
   get_pwd_leaks_count \<lparr>status_code = 200, response_text = canned_body\<rparr> (str_upper ''0123abc'')
     = Inr (PyInt 0)"
proof -
  have h: "list_all (\<lambda>parts. length parts = 2)
             (response_records (response_text \<lparr>status_code = 200, response_text = canned_body\<rparr>))"
    by code_simp
  have f1: "find (\<lambda>parts. hd parts = canned_tail) (response_records canned_body)
              = Some [canned_tail, ''3533661'']"
    by code_simp
  have f2: "find (\<lambda>parts. hd parts = str_upper ''0123abc'') (response_records canned_body)
              = None"
    by code_simp
  from leaks_count_of_first_equal_tail [OF h, of canned_tail]
       leaks_count_of_first_equal_tail [OF h, of "str_upper ''0123abc''"] h f1 f2
  show ?thesis by simp
qed

end
